theory Spec2Isabelle
  imports Complex_Main
begin

section \<open>Python string primitives used by the controller\<close>

text \<open>
  The controller stores its status as a line of text and takes it apart with
  \<^verbatim>\<open>str.strip\<close>, \<^verbatim>\<open>str.split\<close> and \<^verbatim>\<open>int\<close>, and builds it
  with an f-string over an integer. Strings are byte lists here; the journal is taken to be
  ASCII text, so the whitespace characters are the ASCII ones Python's \<^verbatim>\<open>str.isspace\<close>
  accepts (TAB, LF, VT, FF, CR, FS, GS, RS, US and the blank) and the digits are \<open>0\<close> to \<open>9\<close>.
\<close>

definition py_isspace :: "char \<Rightarrow> bool" where
  "py_isspace c =
     (let n = (of_char c :: nat) in (9 \<le> n \<and> n \<le> 13) \<or> (28 \<le> n \<and> n \<le> 32))"

definition py_strip :: "string \<Rightarrow> string" where
  "py_strip s = rev (dropWhile py_isspace (rev (dropWhile py_isspace s)))"

text \<open>
  \<^verbatim>\<open>s.split()\<close> with no argument: the maximal runs of non-whitespace characters, in
  order. \<open>cur\<close> is the token being read.
\<close>

fun split_from :: "string \<Rightarrow> string \<Rightarrow> string list" where
  "split_from cur [] = (if cur = [] then [] else [cur])"
| "split_from cur (c # cs) =
     (if py_isspace c
      then (if cur = [] then split_from [] cs else cur # split_from [] cs)
      else split_from (cur @ [c]) cs)"

definition py_split :: "string \<Rightarrow> string list" where
  "py_split s = split_from [] s"

definition is_digit :: "char \<Rightarrow> bool" where
  "is_digit c = (let n = (of_char c :: nat) in 48 \<le> n \<and> n \<le> 57)"

definition digit_val :: "char \<Rightarrow> nat" where
  "digit_val c = of_char c - 48"

definition digit_char :: "nat \<Rightarrow> char" where
  "digit_char d = char_of (48 + d)"

text \<open>
  The digits part of an integer literal as \<^verbatim>\<open>int(str)\<close> reads it in base 10: decimal
  digits, where a single underscore may stand between two digits. \<open>acc\<close> is the value read
  so far and \<open>prev_digit\<close> tells whether the previous character was a digit.
\<close>

fun parse_digits :: "nat \<Rightarrow> bool \<Rightarrow> string \<Rightarrow> nat option" where
  "parse_digits acc prev_digit [] = (if prev_digit then Some acc else None)"
| "parse_digits acc prev_digit (c # cs) =
     (if is_digit c then parse_digits (10 * acc + digit_val c) True cs
      else if c = CHR ''_'' \<and> prev_digit then parse_digits acc False cs
      else None)"

text \<open>
  \<^verbatim>\<open>int(s)\<close>: surrounding whitespace is dropped, one sign is allowed. \<open>None\<close> stands
  for the \<^verbatim>\<open>ValueError\<close> Python raises.
\<close>

definition py_int :: "string \<Rightarrow> int option" where
  "py_int s =
     (case py_strip s of
        [] \<Rightarrow> None
      | c # cs \<Rightarrow>
          if c = CHR ''-'' then map_option (\<lambda>n. - int n) (parse_digits 0 False cs)
          else if c = CHR ''+'' then map_option int (parse_digits 0 False cs)
          else map_option int (parse_digits 0 False (c # cs)))"

text \<open>\<^verbatim>\<open>str(n)\<close> for an integer, as the f-string formats it.\<close>

fun str_nat :: "nat \<Rightarrow> string" where
  "str_nat n = (if n < 10 then [digit_char n] else str_nat (n div 10) @ [digit_char (n mod 10)])"

declare str_nat.simps [simp del]

definition str_int :: "int \<Rightarrow> string" where
  "str_int i = (if i < 0 then CHR ''-'' # str_nat (nat (- i)) else str_nat (nat i))"

section \<open>The controller object and its environment\<close>

text \<open>
  The module constants: the two motor leads and the pulse input.
\<close>

definition CH1 :: nat where "CH1 = 26"
definition CH2 :: nat where "CH2 = 20"
definition PULSE :: nat where "PULSE = 5"

text \<open>
  What the controller does to the outside world, in the order it does it: pin
  configuration (\<^verbatim>\<open>GPIO.setup\<close>), pin writes (\<^verbatim>\<open>GPIO.output(channel, value)\<close>),
  \<^verbatim>\<open>time.sleep\<close>, and the two ways \<^verbatim>\<open>update_status\<close> reaches
  \<^verbatim>\<open>write_journal\<close>: called on the foreground path (\<open>JournalSync\<close>) or handed to the
  executor (\<open>JournalAsync\<close>). Log lines and \<^verbatim>\<open>print\<close> output are diagnostics and are
  not recorded.
\<close>

datatype effect =
    Setup nat
  | Output nat nat
  | Sleep real
  | JournalSync string
  | JournalAsync string

text \<open>
  The fields of a \<^verbatim>\<open>pimc\<close> object. \<open>status\<close> is \<open>None\<close> when
  \<^verbatim>\<open>load_journal\<close> returned Python's \<^verbatim>\<open>None\<close>. \<open>journal_file\<close> is the
  content of the file at \<^verbatim>\<open>journal_filename\<close> (\<open>None\<close>: no such file).
  \<open>journal_futures\<close> holds the labels of the handles not yet purged; a label is the
  status that was current at submission (the time stamp Python appends to it is only ever
  logged). The executor is modelled as running a submitted write to completion before the
  caller goes on, so every handle is complete when it is looked at; interleavings of
  background writes are outside this model.
\<close>

record pimc =
  journal_file :: "string option"
  gpio_initialized :: bool
  journal_futures :: "string list"
  motor_busy :: bool
  faking_it :: bool
  open_pulses :: int
  close_pulses :: int
  maxtime :: int
  status :: "string option"
  effects :: "effect list"

text \<open>
  The exceptions that can leave a method. \<^verbatim>\<open>ValueError\<close> is caught where it is raised
  and so is not among them.
\<close>

datatype error = TypeError | AttributeError | IndexError

text \<open>What \<^verbatim>\<open>open\<close> and \<^verbatim>\<open>close\<close> return: \<^verbatim>\<open>False\<close>, or nothing.\<close>

datatype pyval = PyNone | PyBool bool

text \<open>
  What one pulse-wait loop observes. \<open>start_time\<close> is the reading of
  \<^verbatim>\<open>time.time()\<close> taken before the loop. The \<open>i\<close>-th element of \<open>ticks\<close> is the
  pair of the clock reading at the \<open>i\<close>-th evaluation of the loop condition and the value
  \<^verbatim>\<open>GPIO.input(PULSE)\<close> returns if the body then runs (0 low, 1 high). Clock readings
  are seconds, as real numbers.
\<close>

record env =
  start_time :: real
  ticks :: "(real \<times> nat) list"

definition emit :: "effect list \<Rightarrow> pimc \<Rightarrow> pimc" where
  "emit es s = s\<lparr>effects := effects s @ es\<rparr>"

subsection \<open>Journal\<close>

text \<open>
  \<^verbatim>\<open>write_journal\<close> overwrites the file with the status and syncs; the status is a
  string whenever it runs, since only \<^verbatim>\<open>update_status\<close> calls it.
  \<^verbatim>\<open>update_status\<close> sets the status first, then either submits
  \<^verbatim>\<open>write_journal\<close> and keeps the handle, or calls it.
\<close>

definition write_journal :: "pimc \<Rightarrow> pimc" where
  "write_journal s = s\<lparr>journal_file := status s\<rparr>"

definition update_status :: "string \<Rightarrow> bool \<Rightarrow> pimc \<Rightarrow> pimc" where
  "update_status new_status use_future s =
     (let s1 = s\<lparr>status := Some new_status\<rparr> in
      if use_future
      then (let s2 = emit [JournalAsync new_status] (write_journal s1)
            in s2\<lparr>journal_futures := journal_futures s2 @ [new_status]\<rparr>)
      else emit [JournalSync new_status] (write_journal s1))"

text \<open>
  \<^verbatim>\<open>load_journal\<close>: \<open>None\<close> when the file does not exist, and when what it holds is
  empty once stripped.
\<close>

definition load_journal :: "string option \<Rightarrow> string option" where
  "load_journal file =
     (case file of
        None \<Rightarrow> None
      | Some content \<Rightarrow>
          (let status = py_strip content in if status = [] then None else Some status))"

definition cleanup_completed_journal_futures :: "pimc \<Rightarrow> pimc" where
  "cleanup_completed_journal_futures s = s\<lparr>journal_futures := []\<rparr>"

subsection \<open>Motor driver\<close>

definition gpio_setup :: "pimc \<Rightarrow> bool \<times> pimc" where
  "gpio_setup s =
     (if gpio_initialized s then (False, s)
      else (True, (emit [Setup CH1, Setup CH2, Setup PULSE] s)\<lparr>gpio_initialized := True\<rparr>))"

definition stop_and_housekeeping :: "pimc \<Rightarrow> pimc" where
  "stop_and_housekeeping s =
     (let s1 = snd (gpio_setup s);
          s2 = emit [Output CH1 1, Output CH2 1, Sleep 0.25] s1;
          s3 = s2\<lparr>motor_busy := False\<rparr>
      in s3\<lparr>journal_futures := []\<rparr>)"

definition forward :: "pimc \<Rightarrow> bool \<times> pimc" where
  "forward s =
     (if motor_busy s then (False, s)
      else (let s1 = stop_and_housekeeping (s\<lparr>motor_busy := True\<rparr>)
            in if faking_it s1 then (True, s1) else (True, emit [Output CH1 0] s1)))"

definition reverse :: "pimc \<Rightarrow> bool \<times> pimc" where
  "reverse s =
     (if motor_busy s then (False, s)
      else (let s1 = stop_and_housekeeping (s\<lparr>motor_busy := True\<rparr>)
            in if faking_it s1 then (True, s1) else (True, emit [Output CH2 0] s1)))"

subsection \<open>Waiting for pulses\<close>

text \<open>
  What the loop does when it has counted a pulse: with a status prefix that is truthy (given
  and not the empty string), the status becomes the prefix, a blank and
  \<^verbatim>\<open>pulses - pulses_seen\<close>, through the executor.
\<close>

definition pulse_seen :: "int \<Rightarrow> string option \<Rightarrow> int \<Rightarrow> pimc \<Rightarrow> pimc" where
  "pulse_seen pulses st pulses_seen s =
     (case st of
        None \<Rightarrow> s
      | Some prefix \<Rightarrow>
          if prefix \<noteq> []
          then update_status (prefix @ '' '' @ str_int (pulses - pulses_seen)) True s
          else s)"

text \<open>
  The loop of \<^verbatim>\<open>wait_pulses\<close>, with its variables \<open>pulses_seen\<close> and \<open>last_state\<close>
  as arguments. It yields the final \<open>pulses_seen\<close> and the object. When the observations run
  out while the loop would still read the clock to decide, the outcome is undetermined:
  \<open>None\<close>. When \<open>pulses_seen < pulses\<close> is false the loop leaves whatever the clock
  reads, so no observation is needed.
\<close>

fun wait_loop ::
  "int \<Rightarrow> string option \<Rightarrow> real \<Rightarrow> int \<Rightarrow> nat option \<Rightarrow> (real \<times> nat) list \<Rightarrow> pimc
     \<Rightarrow> (int \<times> pimc) option" where
  "wait_loop pulses st start pulses_seen last_state [] s =
     (if pulses_seen < pulses then None else Some (pulses_seen, s))"
| "wait_loop pulses st start pulses_seen last_state ((now, state) # rest) s =
     (if now - start < of_int (maxtime s) \<and> pulses_seen < pulses
      then (let s1 = emit [Sleep 0.050] (cleanup_completed_journal_futures s) in
            case last_state of
              None \<Rightarrow> wait_loop pulses st start pulses_seen (Some state) rest s1
            | Some l \<Rightarrow>
                if state > l
                then wait_loop pulses st start (pulses_seen + 1) (Some state) rest
                       (pulse_seen pulses st (pulses_seen + 1) s1)
                else wait_loop pulses st start pulses_seen (Some state) rest s1)
      else Some (pulses_seen, s))"

definition wait_pulses :: "int \<Rightarrow> string option \<Rightarrow> env \<Rightarrow> pimc \<Rightarrow> (bool \<times> pimc) option" where
  "wait_pulses pulses st e s =
     map_option (\<lambda>(pulses_seen, s'). (pulses_seen \<ge> pulses, s'))
       (wait_loop pulses st (start_time e) 0 None (ticks e) s)"

text \<open>
  The loop of \<^verbatim>\<open>fake_wait_pulses\<close>. It reads no input: each pass sets
  \<open>last_state\<close> to 0 and \<open>state\<close> to 1 and then runs the same tests as the loop above.
  Only the clock readings of the observations are used.
\<close>

fun fake_wait_loop ::
  "int \<Rightarrow> string option \<Rightarrow> real \<Rightarrow> int \<Rightarrow> nat option \<Rightarrow> (real \<times> nat) list \<Rightarrow> pimc
     \<Rightarrow> (int \<times> pimc) option" where
  "fake_wait_loop pulses st start pulses_seen last_state [] s =
     (if pulses_seen < pulses then None else Some (pulses_seen, s))"
| "fake_wait_loop pulses st start pulses_seen last_state ((now, unread) # rest) s =
     (if now - start < of_int (maxtime s) \<and> pulses_seen < pulses
      then (let s1 = emit [Sleep 1] (cleanup_completed_journal_futures s);
                last_state' = Some (0 :: nat);
                state = (1 :: nat) in
            case last_state' of
              None \<Rightarrow> fake_wait_loop pulses st start pulses_seen (Some state) rest s1
            | Some l \<Rightarrow>
                if state > l
                then fake_wait_loop pulses st start (pulses_seen + 1) (Some state) rest
                       (pulse_seen pulses st (pulses_seen + 1) s1)
                else fake_wait_loop pulses st start pulses_seen (Some state) rest s1)
      else Some (pulses_seen, s))"

definition fake_wait_pulses ::
  "int \<Rightarrow> string option \<Rightarrow> env \<Rightarrow> pimc \<Rightarrow> (bool \<times> pimc) option" where
  "fake_wait_pulses pulses st e s =
     map_option (\<lambda>(pulses_seen, s'). (pulses_seen \<ge> pulses, s'))
       (fake_wait_loop pulses st (start_time e) 0 None (ticks e) s)"

subsection \<open>Operations\<close>

text \<open>
  A method yields \<open>None\<close> when the observations do not determine its pulse-wait loop, and
  otherwise its outcome (\<open>Inl\<close> an exception, \<open>Inr\<close> the value returned) with the object as
  the method leaves it.

  \<^verbatim>\<open>open(pulses, resuming)\<close>. The logger is a \<^verbatim>\<open>logging.Logger\<close>, which is not
  callable: the statement \<^verbatim>\<open>self.logger("Aborted open: motor busy")\<close> raises
  \<^verbatim>\<open>TypeError\<close>.
\<close>

definition open_op ::
  "int option \<Rightarrow> bool \<Rightarrow> env \<Rightarrow> pimc \<Rightarrow> ((error + pyval) \<times> pimc) option" where
  "open_op pulses_arg resuming e s =
     (let pulses = (case pulses_arg of None \<Rightarrow> open_pulses s | Some p \<Rightarrow> p) in
      if \<not> resuming \<and> status s \<noteq> Some ''closed'' then Some (Inr (PyBool False), s)
      else
        (case forward s of
           (False, s1) \<Rightarrow> Some (Inl TypeError, s1)
         | (True, s1) \<Rightarrow>
             (let s2 = (if \<not> resuming then update_status ''opening'' True s1 else s1) in
              case (if faking_it s2 then fake_wait_pulses pulses (Some ''opening'') e s2
                    else wait_pulses pulses (Some ''opening'') e s2) of
                None \<Rightarrow> None
              | Some (result, s3) \<Rightarrow>
                  (let s4 = stop_and_housekeeping s3 in
                   if result then Some (Inr PyNone, update_status ''open'' False s4)
                   else Some (Inr PyNone, update_status ''failed opening'' False s4)))))"

definition close_op ::
  "int option \<Rightarrow> bool \<Rightarrow> env \<Rightarrow> pimc \<Rightarrow> ((error + pyval) \<times> pimc) option" where
  "close_op pulses_arg resuming e s =
     (let pulses = (case pulses_arg of None \<Rightarrow> close_pulses s | Some p \<Rightarrow> p) in
      if \<not> resuming \<and> status s \<noteq> Some ''open'' then Some (Inr (PyBool False), s)
      else
        (case reverse s of
           (False, s1) \<Rightarrow> Some (Inl TypeError, s1)
         | (True, s1) \<Rightarrow>
             (let s2 = (if \<not> resuming then update_status ''closing'' True s1 else s1) in
              case (if faking_it s2 then fake_wait_pulses pulses (Some ''closing'') e s2
                    else wait_pulses pulses (Some ''closing'') e s2) of
                None \<Rightarrow> None
              | Some (result, s3) \<Rightarrow>
                  (let s4 = stop_and_housekeeping s3 in
                   if result then Some (Inr PyNone, update_status ''closed'' False s4)
                   else Some (Inr PyNone, update_status ''failed closing'' False s4)))))"

text \<open>
  The tail of \<^verbatim>\<open>resume\<close>, once \<open>remaining_pulses\<close> is known: an exception of
  \<^verbatim>\<open>open\<close> or \<^verbatim>\<open>close\<close> passes through, and what they return is dropped.
\<close>

definition returning_True ::
  "((error + pyval) \<times> pimc) option \<Rightarrow> ((error + bool) \<times> pimc) option" where
  "returning_True r =
     (case r of
        None \<Rightarrow> None
      | Some (Inl err, s') \<Rightarrow> Some (Inl err, s')
      | Some (Inr v, s') \<Rightarrow> Some (Inr True, s'))"

definition resume_dispatch ::
  "string \<Rightarrow> int option \<Rightarrow> env \<Rightarrow> pimc \<Rightarrow> ((error + bool) \<times> pimc) option" where
  "resume_dispatch token remaining_pulses e s =
     (if token = ''opening'' then returning_True (open_op remaining_pulses True e s)
      else if token = ''closing'' then returning_True (close_op remaining_pulses True e s)
      else Some (Inr False, s))"

text \<open>
  \<^verbatim>\<open>resume()\<close>. \<^verbatim>\<open>self.status.split()\<close> raises \<^verbatim>\<open>AttributeError\<close> on
  \<^verbatim>\<open>None\<close>, and \<^verbatim>\<open>status_split[0]\<close> raises \<^verbatim>\<open>IndexError\<close> on a status with no
  token.
\<close>

definition resume :: "env \<Rightarrow> pimc \<Rightarrow> ((error + bool) \<times> pimc) option" where
  "resume e s =
     (case status s of
        None \<Rightarrow> Some (Inl AttributeError, s)
      | Some line \<Rightarrow>
          (let status_split = py_split line in
           case status_split of
             [] \<Rightarrow> Some (Inl IndexError, s)
           | token # others \<Rightarrow>
               if (token = ''opening'' \<or> token = ''closing'') \<and> length status_split > 1
               then (case py_int (status_split ! 1) of
                       None \<Rightarrow> Some (Inr False, s)
                     | Some n \<Rightarrow> resume_dispatch token (Some n) e s)
               else resume_dispatch token None e s))"

text \<open>
  The constructor. \<open>file\<close> is the content of the journal file when the object is made,
  \<open>maxtime_arg\<close> the \<^verbatim>\<open>maxtime\<close> argument, \<open>resume_arg\<close> the \<^verbatim>\<open>resume\<close> argument.
\<close>

definition init ::
  "string option \<Rightarrow> bool \<Rightarrow> int \<Rightarrow> int \<Rightarrow> int \<Rightarrow> bool \<Rightarrow> env
     \<Rightarrow> ((error + unit) \<times> pimc) option" where
  "init file fake_it open_pulses_arg close_pulses_arg maxtime_arg resume_arg e =
     (let s0 = \<lparr>journal_file = file, gpio_initialized = False, journal_futures = [],
                motor_busy = False, faking_it = fake_it, open_pulses = open_pulses_arg,
                close_pulses = close_pulses_arg, maxtime = 30, status = None, effects = []\<rparr>;
          s1 = s0\<lparr>status := load_journal (journal_file s0)\<rparr>;
          s2 = (if \<not> faking_it s1 then snd (gpio_setup s1) else s1)
      in case status s2 of
           None \<Rightarrow> Some (Inr (), s2)
         | Some line \<Rightarrow>
             if resume_arg \<and> line \<noteq> []
             then (case py_split line of
                     [] \<Rightarrow> Some (Inl IndexError, s2)
                   | token # others \<Rightarrow>
                       if token = ''open'' \<or> token = ''closed'' then Some (Inr (), s2)
                       else (case resume e s2 of
                               None \<Rightarrow> None
                             | Some (Inl err, s3) \<Rightarrow> Some (Inl err, s3)
                             | Some (Inr ok, s3) \<Rightarrow> Some (Inr (), s3)))
             else Some (Inr (), s2))"

section \<open>The contract of the pulse-wait loop\<close>

text \<open>
  The contract in the specification's words, to compare the loops with. An observation is in
  time when the clock, read at the loop condition, is less than \<open>limit\<close> seconds past the
  start.
\<close>

definition in_time :: "real \<Rightarrow> int \<Rightarrow> real \<times> nat \<Rightarrow> bool" where
  "in_time start limit tick = (fst tick - start < of_int limit)"

text \<open>
  A pulse is a sample higher than the sample before it. There is no sample before the first
  one, so the first one is never a pulse.
\<close>

definition low_to_high :: "nat option \<Rightarrow> nat \<Rightarrow> bool" where
  "low_to_high previous x = (case previous of None \<Rightarrow> False | Some l \<Rightarrow> l < x)"

fun rising_from :: "nat option \<Rightarrow> nat list \<Rightarrow> nat" where
  "rising_from previous [] = 0"
| "rising_from previous (x # xs) =
     (if low_to_high previous x then 1 else 0) + rising_from (Some x) xs"

definition rising_edges :: "nat list \<Rightarrow> nat" where
  "rising_edges xs = rising_from None xs"

text \<open>
  The observations made before the time limit, the pulses among them, their number, and
  whether the clock is seen to reach the limit.
\<close>

definition live_ticks :: "env \<Rightarrow> pimc \<Rightarrow> (real \<times> nat) list" where
  "live_ticks e s = takeWhile (in_time (start_time e) (maxtime s)) (ticks e)"

definition pulses_in_time :: "env \<Rightarrow> pimc \<Rightarrow> int" where
  "pulses_in_time e s = int (rising_edges (map snd (live_ticks e s)))"

definition passes_in_time :: "env \<Rightarrow> pimc \<Rightarrow> int" where
  "passes_in_time e s = int (length (live_ticks e s))"

definition timed_out :: "env \<Rightarrow> pimc \<Rightarrow> bool" where
  "timed_out e s = (live_ticks e s \<noteq> ticks e)"

text \<open>The statuses handed to the executor, in order.\<close>

fun async_writes :: "effect list \<Rightarrow> string list" where
  "async_writes [] = []"
| "async_writes (JournalAsync line # es) = line # async_writes es"
| "async_writes (other # es) = async_writes es"

text \<open>
  The status updates for the pulses number \<open>a\<close> to \<open>b\<close> of a wait for \<open>k\<close> pulses: the
  prefix, a blank and the pulses remaining, one less each time. None without a prefix.
\<close>

definition countdown :: "string option \<Rightarrow> int \<Rightarrow> int \<Rightarrow> int \<Rightarrow> string list" where
  "countdown st k a b =
     (case st of
        None \<Rightarrow> []
      | Some prefix \<Rightarrow>
          if prefix \<noteq> [] then map (\<lambda>i. prefix @ '' '' @ str_int (k - i)) [a..b] else [])"

text \<open>The status after a list of updates: the last of them, or the old one.\<close>

definition last_or :: "'a option \<Rightarrow> 'a list \<Rightarrow> 'a option" where
  "last_or old xs = (if xs = [] then old else Some (last xs))"

text \<open>
  The same notions for a loop that has already counted \<open>seen\<close> pulses and last read
  \<open>previous\<close>: what it will have counted when it ends, and whether the observations
  determine that (the target is reached, or the limit is seen to pass). For the simulated
  loop every pass in time counts.
\<close>

definition counted ::
  "int \<Rightarrow> int \<Rightarrow> nat option \<Rightarrow> real \<Rightarrow> int \<Rightarrow> (real \<times> nat) list \<Rightarrow> int" where
  "counted k seen previous start limit obs =
     min k (seen + int (rising_from previous (map snd (takeWhile (in_time start limit) obs))))"

definition decided ::
  "int \<Rightarrow> int \<Rightarrow> nat option \<Rightarrow> real \<Rightarrow> int \<Rightarrow> (real \<times> nat) list \<Rightarrow> bool" where
  "decided k seen previous start limit obs =
     (k \<le> seen + int (rising_from previous (map snd (takeWhile (in_time start limit) obs)))
      \<or> takeWhile (in_time start limit) obs \<noteq> obs)"

definition fake_counted :: "int \<Rightarrow> int \<Rightarrow> real \<Rightarrow> int \<Rightarrow> (real \<times> nat) list \<Rightarrow> int" where
  "fake_counted k seen start limit obs =
     min k (seen + int (length (takeWhile (in_time start limit) obs)))"

definition fake_decided :: "int \<Rightarrow> int \<Rightarrow> real \<Rightarrow> int \<Rightarrow> (real \<times> nat) list \<Rightarrow> bool" where
  "fake_decided k seen start limit obs =
     (k \<le> seen + int (length (takeWhile (in_time start limit) obs))
      \<or> takeWhile (in_time start limit) obs \<noteq> obs)"

text \<open>What the driver in use counts: passes when simulated, pulses otherwise.\<close>

definition pulses_counted :: "env \<Rightarrow> pimc \<Rightarrow> int" where
  "pulses_counted e s = (if faking_it s then passes_in_time e s else pulses_in_time e s)"

text \<open>
  The target of an \<^verbatim>\<open>open\<close> or \<^verbatim>\<open>close\<close>: the argument, or the configured count
  when there is none.
\<close>

definition open_target :: "int option \<Rightarrow> pimc \<Rightarrow> int" where
  "open_target p s = (case p of None \<Rightarrow> open_pulses s | Some q \<Rightarrow> q)"

definition close_target :: "int option \<Rightarrow> pimc \<Rightarrow> int" where
  "close_target p s = (case p of None \<Rightarrow> close_pulses s | Some q \<Rightarrow> q)"

text \<open>The last \<open>n\<close> effects of an object, and the lengths of its sleeps in order.\<close>

definition last_effects :: "nat \<Rightarrow> pimc \<Rightarrow> effect list" where
  "last_effects n s = rev (take n (rev (effects s)))"

fun sleeps :: "effect list \<Rightarrow> real list" where
  "sleeps [] = []"
| "sleeps (Sleep d # es) = d # sleeps es"
| "sleeps (other # es) = sleeps es"

section \<open>Example objects and observations\<close>

text \<open>
  A controller as the constructor leaves it on a journal holding \<open>closed\<close> (respectively
  \<open>open\<close>), with the default pulse counts, on real hardware.
\<close>

definition example_closed :: pimc where
  "example_closed =
     \<lparr>journal_file = Some ''closed'', gpio_initialized = True, journal_futures = [],
      motor_busy = False, faking_it = False, open_pulses = 11, close_pulses = 11,
      maxtime = 30, status = Some ''closed'', effects = []\<rparr>"

definition example_open :: pimc where
  "example_open =
     \<lparr>journal_file = Some ''open'', gpio_initialized = True, journal_futures = [],
      motor_busy = False, faking_it = False, open_pulses = 11, close_pulses = 11,
      maxtime = 30, status = Some ''open'', effects = []\<rparr>"

text \<open>
  The object of an \<^verbatim>\<open>open()\<close> from \<open>closed\<close> at the moment its pulse-wait loop starts:
  \<^verbatim>\<open>forward()\<close> has returned and the status has been set to the in-progress token.
\<close>

definition in_flight_open :: pimc where
  "in_flight_open = update_status ''opening'' True (snd (forward example_closed))"

text \<open>
  The feedback input alternates low and high, one sample a second: two pulses arrive within
  four seconds.
\<close>

definition two_pulses :: env where
  "two_pulses = \<lparr>start_time = 0, ticks = [(0, 0), (1, 1), (2, 0), (3, 1), (4, 0)]\<rparr>"

text \<open>
  The input rises once, at ten seconds, and nothing else happens until the clock has passed
  thirty seconds.
\<close>

definition late_pulse :: env where
  "late_pulse = \<lparr>start_time = 0, ticks = [(0, 0), (10, 1), (31, 1)]\<rparr>"

text \<open>
  One pass of the loop in time: at the second test of the loop condition the clock has
  passed thirty seconds.
\<close>

definition one_pass :: env where
  "one_pass = \<lparr>start_time = 0, ticks = [(0, 1), (31, 1)]\<rparr>"

text \<open>
  A controller on a journal left at \<open>opening 3\<close> (respectively \<open>closing 3\<close>) by an
  interrupted run.
\<close>

definition interrupted_opening :: pimc where
  "interrupted_opening =
     \<lparr>journal_file = Some ''opening 3'', gpio_initialized = True, journal_futures = [],
      motor_busy = False, faking_it = False, open_pulses = 11, close_pulses = 11,
      maxtime = 30, status = Some ''opening 3'', effects = []\<rparr>"

definition interrupted_closing :: pimc where
  "interrupted_closing =
     \<lparr>journal_file = Some ''closing 3'', gpio_initialized = True, journal_futures = [],
      motor_busy = False, faking_it = True, open_pulses = 11, close_pulses = 11,
      maxtime = 30, status = Some ''closing 3'', effects = []\<rparr>"

text \<open>Three pulses in time, one a second.\<close>

definition three_pulses :: env where
  "three_pulses =
     \<lparr>start_time = 0, ticks = [(0, 0), (1, 1), (2, 0), (3, 1), (4, 0), (5, 1), (6, 0)]\<rparr>"

section \<open>Facts about the string primitives\<close>

lemma split_from_token:
  "list_all (\<lambda>c. \<not> py_isspace c) w \<Longrightarrow> split_from cur (w @ rest) = split_from (cur @ w) rest"
  by (induction w arbitrary: cur) simp_all

lemma digit_char_values:
  "digit_char 0 = CHR ''0''" "digit_char 1 = CHR ''1''" "digit_char (Suc 0) = CHR ''1''"
  "digit_char 2 = CHR ''2''"
  "digit_char 3 = CHR ''3''" "digit_char 4 = CHR ''4''" "digit_char 5 = CHR ''5''"
  "digit_char 6 = CHR ''6''" "digit_char 7 = CHR ''7''" "digit_char 8 = CHR ''8''"
  "digit_char 9 = CHR ''9''"
  by code_simp+

lemma digit_char_props:
  assumes "d < 10"
  shows "is_digit (digit_char d)" and "digit_val (digit_char d) = d"
    and "\<not> py_isspace (digit_char d)"
  using assms by (simp_all add: is_digit_def digit_val_def digit_char_def py_isspace_def)

lemma str_nat_digits: "list_all is_digit (str_nat n)"
  by (induction n rule: str_nat.induct) (subst str_nat.simps, simp add: digit_char_props)

lemma str_nat_nonempty: "str_nat n \<noteq> []"
  by (subst str_nat.simps) simp

lemma is_digit_not_space: "is_digit c \<Longrightarrow> \<not> py_isspace c"
  by (simp add: is_digit_def py_isspace_def Let_def)

lemma is_digit_not_sign: "is_digit c \<Longrightarrow> c \<noteq> CHR ''-'' \<and> c \<noteq> CHR ''+''"
  by (auto simp add: is_digit_def)

lemma str_nat_no_space: "list_all (\<lambda>c. \<not> py_isspace c) (str_nat n)"
  using str_nat_digits [of n] by (induction "str_nat n") (auto simp: list_all_iff is_digit_not_space)

lemma str_int_no_space: "list_all (\<lambda>c. \<not> py_isspace c) (str_int i)"
  using str_nat_no_space by (simp add: str_int_def py_isspace_def)

lemma str_int_nonempty: "str_int i \<noteq> []"
  by (simp add: str_int_def str_nat_nonempty)

lemma parse_digits_snoc:
  "list_all is_digit ds \<Longrightarrow> parse_digits acc p ds = Some m \<Longrightarrow> is_digit c \<Longrightarrow>
   parse_digits acc p (ds @ [c]) = Some (10 * m + digit_val c)"
  by (induction ds arbitrary: acc p) (auto split: if_splits)

lemma parse_str_nat: "parse_digits 0 False (str_nat n) = Some n"
proof (induction n rule: str_nat.induct)
  case (1 n)
  show ?case
  proof (cases "n < 10")
    case True
    then show ?thesis by (subst str_nat.simps) (simp add: digit_char_props)
  next
    case False
    then have ih: "parse_digits 0 False (str_nat (n div 10)) = Some (n div 10)"
      using 1 by simp
    have d: "is_digit (digit_char (n mod 10))" "digit_val (digit_char (n mod 10)) = n mod 10"
      by (simp_all add: digit_char_props)
    have "parse_digits 0 False (str_nat (n div 10) @ [digit_char (n mod 10)])
            = Some (10 * (n div 10) + digit_val (digit_char (n mod 10)))"
      by (rule parse_digits_snoc [OF str_nat_digits ih d(1)])
    with False d show ?thesis by (subst str_nat.simps) simp
  qed
qed

lemma py_strip_no_space:
  assumes "list_all (\<lambda>c. \<not> py_isspace c) w"
  shows "py_strip w = w"
proof (cases w)
  case Nil
  then show ?thesis by (simp add: py_strip_def)
next
  case (Cons a w')
  with assms have a: "\<not> py_isspace a" by simp
  from Cons assms have l: "\<not> py_isspace (last w)" by (simp add: list_all_iff)
  have 1: "dropWhile py_isspace w = w" using Cons a by simp
  have "w \<noteq> []" using Cons by simp
  then have "hd (rev w) = last w" by (simp add: hd_rev)
  with l have 2: "dropWhile py_isspace (rev w) = rev w"
    by (simp add: dropWhile_eq_self_iff)
  show ?thesis by (simp add: py_strip_def 1 2)
qed

lemma py_int_str_int: "py_int (str_int i) = Some i"
proof (cases "i < 0")
  case True
  have "py_strip (str_int i) = str_int i" by (rule py_strip_no_space [OF str_int_no_space])
  with True show ?thesis by (simp add: py_int_def str_int_def parse_str_nat)
next
  case False
  have s: "py_strip (str_int i) = str_int i" by (rule py_strip_no_space [OF str_int_no_space])
  obtain c cs where c: "str_nat (nat i) = c # cs" using str_nat_nonempty [of "nat i"] by (cases "str_nat (nat i)") auto
  have "is_digit c" using str_nat_digits [of "nat i"] c by simp
  then have "c \<noteq> CHR ''-''" "c \<noteq> CHR ''+''" using is_digit_not_sign by auto
  moreover have "parse_digits 0 False (c # cs) = Some (nat i)" using parse_str_nat [of "nat i"] c by simp
  ultimately show ?thesis using False s c by (simp add: py_int_def str_int_def del: parse_digits.simps)
qed

lemma split_status:
  assumes "token = ''opening'' \<or> token = ''closing''"
  shows "py_split (token @ '' '' @ str_int n) = [token, str_int n]"
proof -
  have t: "list_all (\<lambda>c. \<not> py_isspace c) token" using assms by (auto simp: py_isspace_def)
  have "py_split (token @ '' '' @ str_int n) = split_from token ('' '' @ str_int n)"
    unfolding py_split_def using split_from_token [OF t, of "[]"] by simp
  also have "\<dots> = token # split_from [] (str_int n @ [])"
    using assms by (auto simp: py_isspace_def)
  also have "split_from [] (str_int n @ []) = split_from (str_int n) []"
    using split_from_token [OF str_int_no_space, of "[]" n "[]"] by simp
  finally show ?thesis by (simp add: str_int_nonempty)
qed

section \<open>The pulse-wait loop meets its contract\<close>

lemma emit_fields [simp]:
  "effects (emit es s) = effects s @ es"
  "status (emit es s) = status s"
  "journal_file (emit es s) = journal_file s"
  "journal_futures (emit es s) = journal_futures s"
  "maxtime (emit es s) = maxtime s"
  "gpio_initialized (emit es s) = gpio_initialized s"
  "motor_busy (emit es s) = motor_busy s"
  "faking_it (emit es s) = faking_it s"
  by (simp_all add: emit_def)

lemma cleanup_fields [simp]:
  "effects (cleanup_completed_journal_futures s) = effects s"
  "status (cleanup_completed_journal_futures s) = status s"
  "journal_file (cleanup_completed_journal_futures s) = journal_file s"
  "maxtime (cleanup_completed_journal_futures s) = maxtime s"
  "gpio_initialized (cleanup_completed_journal_futures s) = gpio_initialized s"
  "motor_busy (cleanup_completed_journal_futures s) = motor_busy s"
  "faking_it (cleanup_completed_journal_futures s) = faking_it s"
  by (simp_all add: cleanup_completed_journal_futures_def)

lemma update_status_fields [simp]:
  "status (update_status new use_future s) = Some new"
  "journal_file (update_status new use_future s) = Some new"
  "effects (update_status new use_future s) =
     effects s @ [if use_future then JournalAsync new else JournalSync new]"
  "maxtime (update_status new use_future s) = maxtime s"
  "gpio_initialized (update_status new use_future s) = gpio_initialized s"
  "motor_busy (update_status new use_future s) = motor_busy s"
  "faking_it (update_status new use_future s) = faking_it s"
  by (simp_all add: update_status_def write_journal_def Let_def)

lemma pulse_seen_fields [simp]:
  "maxtime (pulse_seen k st n s) = maxtime s"
  "gpio_initialized (pulse_seen k st n s) = gpio_initialized s"
  "motor_busy (pulse_seen k st n s) = motor_busy s"
  "faking_it (pulse_seen k st n s) = faking_it s"
  by (simp_all add: pulse_seen_def split: option.splits)

lemma async_writes_append [simp]: "async_writes (xs @ ys) = async_writes xs @ async_writes ys"
  by (induction xs rule: async_writes.induct) simp_all

lemma pulse_seen_writes:
  "async_writes (effects (pulse_seen k st n s)) = async_writes (effects s) @ countdown st k n n"
  by (simp add: pulse_seen_def countdown_def split: option.splits)

lemma countdown_step: "a \<le> b \<Longrightarrow> countdown st k a a @ countdown st k (a + 1) b = countdown st k a b"
  by (simp add: countdown_def upto_rec1 [of a b] split: option.splits)

lemma countdown_empty [simp]: "b < a \<Longrightarrow> countdown st k a b = []"
  by (simp add: countdown_def split: option.splits)

lemma wait_loop_done: "\<not> seen < k \<Longrightarrow> wait_loop k st start seen prev obs s = Some (seen, s)"
  by (cases obs) auto

lemma wait_loop_frame:
  "wait_loop k st start seen prev obs s = Some (seen', s') \<Longrightarrow>
   maxtime s' = maxtime s \<and> gpio_initialized s' = gpio_initialized s \<and>
   motor_busy s' = motor_busy s \<and> faking_it s' = faking_it s \<and> seen \<le> seen'"
proof (induction obs arbitrary: seen prev s)
  case Nil
  then show ?case by (simp split: if_splits)
next
  case (Cons tick rest)
  obtain now x where tick: "tick = (now, x)" by (cases tick)
  show ?case
  proof (cases "now - start < of_int (maxtime s) \<and> seen < k")
    case False
    with Cons.prems tick show ?thesis by auto
  next
    case True
    let ?s1 = "emit [Sleep 0.050] (cleanup_completed_journal_futures s)"
    show ?thesis
    proof (cases prev)
      case None
      with True Cons.prems tick
      have "wait_loop k st start seen (Some x) rest ?s1 = Some (seen', s')" by simp
      from Cons.IH [OF this] show ?thesis by simp
    next
      case (Some l)
      show ?thesis
      proof (cases "x > l")
        case r: True
        with True Some Cons.prems tick
        have "wait_loop k st start (seen + 1) (Some x) rest (pulse_seen k st (seen + 1) ?s1)
                = Some (seen', s')" by simp
        from Cons.IH [OF this] show ?thesis by simp
      next
        case r: False
        with True Some Cons.prems tick
        have "wait_loop k st start seen (Some x) rest ?s1 = Some (seen', s')" by simp
        from Cons.IH [OF this] show ?thesis by simp
      qed
    qed
  qed
qed


lemma in_time_pair [simp]: "in_time start limit (now, x) = (now - start < of_int limit)"
  by (simp add: in_time_def)

lemma wait_loop_step:
  assumes "now - start < of_int (maxtime s)" and "seen < k"
  shows "wait_loop k st start seen prev ((now, x) # rest) s =
           (if low_to_high prev x
            then wait_loop k st start (seen + 1) (Some x) rest
                   (pulse_seen k st (seen + 1)
                      (emit [Sleep 0.050] (cleanup_completed_journal_futures s)))
            else wait_loop k st start seen (Some x) rest
                   (emit [Sleep 0.050] (cleanup_completed_journal_futures s)))"
  using assms by (simp add: low_to_high_def split: option.splits)

lemma wait_loop_stop:
  assumes "\<not> (now - start < of_int (maxtime s) \<and> seen < k)"
  shows "wait_loop k st start seen prev ((now, x) # rest) s = Some (seen, s)"
  using assms by auto

lemma pulse_seen_status:
  "status (pulse_seen k st n s) = last_or (status s) (countdown st k n n)"
  by (simp add: pulse_seen_def countdown_def last_or_def split: option.splits)

lemma last_or_append: "last_or (last_or old xs) ys = last_or old (xs @ ys)"
  by (simp add: last_or_def)

lemma counted_stop:
  "\<not> now - start < of_int limit \<Longrightarrow> counted k seen prev start limit ((now, x) # rest) = min k seen"
  by (simp add: counted_def)

lemma counted_step:
  "now - start < of_int limit \<Longrightarrow>
   counted k seen prev start limit ((now, x) # rest) =
     counted k (if low_to_high prev x then seen + 1 else seen) (Some x) start limit rest"
  by (simp add: counted_def add.assoc)

lemma decided_step:
  "now - start < of_int limit \<Longrightarrow>
   decided k seen prev start limit ((now, x) # rest) =
     decided k (if low_to_high prev x then seen + 1 else seen) (Some x) start limit rest"
  by (simp add: decided_def add.assoc)

lemma counted_bounds: "seen \<le> k \<Longrightarrow> seen \<le> counted k seen prev start limit obs"
  by (simp add: counted_def)

lemma counted_full: "counted k k prev start limit obs = k"
  by (simp add: counted_def)

lemma wait_loop_spec:
  assumes "seen < k" and "maxtime s = limit" and "decided k seen prev start limit obs"
  shows "\<exists>s'. wait_loop k st start seen prev obs s =
            Some (counted k seen prev start limit obs, s') \<and>
          async_writes (effects s') = async_writes (effects s) @
            countdown st k (seen + 1) (counted k seen prev start limit obs) \<and>
          status s' =
            last_or (status s) (countdown st k (seen + 1) (counted k seen prev start limit obs))"
  using assms
proof (induction obs arbitrary: seen prev s)
  case Nil
  then show ?case by (simp add: decided_def)
next
  case (Cons tick rest)
  obtain now x where tick: "tick = (now, x)" by (cases tick)
  note lim = \<open>maxtime s = limit\<close>
  show ?case
  proof (cases "now - start < of_int limit")
    case False
    have c: "counted k seen prev start limit (tick # rest) = seen"
      using False Cons.prems(1) by (simp add: tick counted_stop)
    have r: "wait_loop k st start seen prev (tick # rest) s = Some (seen, s)"
      unfolding tick using False lim by (intro wait_loop_stop) simp
    show ?thesis unfolding c r by (simp add: last_or_def)
  next
    case True
    define s1 where "s1 = emit [Sleep 0.050] (cleanup_completed_journal_futures s)"
    have s1: "maxtime s1 = limit" "async_writes (effects s1) = async_writes (effects s)"
      "status s1 = status s"
      by (simp_all add: s1_def lim)
    have step: "wait_loop k st start seen prev (tick # rest) s =
           (if low_to_high prev x
            then wait_loop k st start (seen + 1) (Some x) rest (pulse_seen k st (seen + 1) s1)
            else wait_loop k st start seen (Some x) rest s1)"
      unfolding tick s1_def using True lim Cons.prems(1) by (intro wait_loop_step) simp_all
    show ?thesis
    proof (cases "low_to_high prev x")
      case edge: False
      have c: "counted k seen prev start limit (tick # rest) = counted k seen (Some x) start limit rest"
        using True edge by (simp add: tick counted_step)
      have d: "decided k seen (Some x) start limit rest"
        using Cons.prems(3) True edge by (simp add: tick decided_step)
      have r: "wait_loop k st start seen prev (tick # rest) s = wait_loop k st start seen (Some x) rest s1"
        using step edge by simp
      from Cons.IH [OF Cons.prems(1) s1(1) d] show ?thesis
        unfolding c r s1 .
    next
      case edge: True
      define s2 where "s2 = pulse_seen k st (seen + 1) s1"
      have s2: "maxtime s2 = limit"
        "async_writes (effects s2) = async_writes (effects s) @ countdown st k (seen + 1) (seen + 1)"
        "status s2 = last_or (status s) (countdown st k (seen + 1) (seen + 1))"
        by (simp_all add: s2_def s1 pulse_seen_writes pulse_seen_status)
      have c: "counted k seen prev start limit (tick # rest) = counted k (seen + 1) (Some x) start limit rest"
        using True edge by (simp add: tick counted_step)
      have d: "decided k (seen + 1) (Some x) start limit rest"
        using Cons.prems(3) True edge by (simp add: tick decided_step)
      have r: "wait_loop k st start seen prev (tick # rest) s = wait_loop k st start (seen + 1) (Some x) rest s2"
        using step edge by (simp add: s2_def)
      show ?thesis
      proof (cases "seen + 1 < k")
        case more: True
        define m where "m = counted k (seen + 1) (Some x) start limit rest"
        from Cons.IH [OF more s2(1) d] obtain s' where
          r': "wait_loop k st start (seen + 1) (Some x) rest s2 = Some (m, s')"
          and w: "async_writes (effects s') = async_writes (effects s2) @ countdown st k (seen + 1 + 1) m"
          and t: "status s' = last_or (status s2) (countdown st k (seen + 1 + 1) m)"
          unfolding m_def by blast
        have le: "seen + 1 \<le> m"
          unfolding m_def using more by (intro counted_bounds) simp
        have cd: "countdown st k (seen + 1) (seen + 1) @ countdown st k (seen + 1 + 1) m
                    = countdown st k (seen + 1) m"
          by (rule countdown_step [OF le])
        have w': "async_writes (effects s') = async_writes (effects s) @ countdown st k (seen + 1) m"
          unfolding w s2 using cd by simp
        have t': "status s' = last_or (status s) (countdown st k (seen + 1) m)"
          unfolding t s2 last_or_append cd ..
        show ?thesis
          unfolding c r m_def [symmetric] using r' w' t' by blast
      next
        case more: False
        then have k: "seen + 1 = k" using Cons.prems(1) by simp
        have r': "wait_loop k st start (seen + 1) (Some x) rest s2 = Some (seen + 1, s2)"
          by (rule wait_loop_done) (simp add: k)
        have c': "counted k (seen + 1) (Some x) start limit rest = seen + 1"
          using counted_full [of k] k by simp
        show ?thesis
          unfolding c r c' r' using s2 by simp
      qed
    qed
  qed
qed

section \<open>The simulated loop counts its passes\<close>

lemma fake_wait_loop_done:
  "\<not> seen < k \<Longrightarrow> fake_wait_loop k st start seen prev obs s = Some (seen, s)"
  by (cases obs) auto

lemma fake_wait_loop_step:
  assumes "now - start < of_int (maxtime s)" and "seen < k"
  shows "fake_wait_loop k st start seen prev ((now, x) # rest) s =
           fake_wait_loop k st start (seen + 1) (Some 1) rest
             (pulse_seen k st (seen + 1) (emit [Sleep 1] (cleanup_completed_journal_futures s)))"
  using assms by simp

lemma fake_wait_loop_stop:
  assumes "\<not> (now - start < of_int (maxtime s) \<and> seen < k)"
  shows "fake_wait_loop k st start seen prev ((now, x) # rest) s = Some (seen, s)"
  using assms by auto

lemma fake_counted_stop:
  "\<not> now - start < of_int limit \<Longrightarrow> fake_counted k seen start limit ((now, x) # rest) = min k seen"
  by (simp add: fake_counted_def)

lemma fake_counted_step:
  "now - start < of_int limit \<Longrightarrow>
   fake_counted k seen start limit ((now, x) # rest) = fake_counted k (seen + 1) start limit rest"
  by (simp add: fake_counted_def add.assoc)

lemma fake_decided_step:
  "now - start < of_int limit \<Longrightarrow>
   fake_decided k seen start limit ((now, x) # rest) = fake_decided k (seen + 1) start limit rest"
  by (simp add: fake_decided_def add.assoc)

lemma fake_counted_bounds: "seen \<le> k \<Longrightarrow> seen \<le> fake_counted k seen start limit obs"
  by (simp add: fake_counted_def)

lemma fake_counted_full: "fake_counted k k start limit obs = k"
  by (simp add: fake_counted_def)

lemma fake_wait_loop_frame:
  "fake_wait_loop k st start seen prev obs s = Some (seen', s') \<Longrightarrow>
   maxtime s' = maxtime s \<and> gpio_initialized s' = gpio_initialized s \<and>
   motor_busy s' = motor_busy s \<and> faking_it s' = faking_it s \<and> seen \<le> seen'"
proof (induction obs arbitrary: seen prev s)
  case Nil
  then show ?case by (simp split: if_splits)
next
  case (Cons tick rest)
  obtain now x where tick: "tick = (now, x)" by (cases tick)
  show ?case
  proof (cases "now - start < of_int (maxtime s) \<and> seen < k")
    case False
    with Cons.prems tick show ?thesis by auto
  next
    case True
    with Cons.prems tick
    have "fake_wait_loop k st start (seen + 1) (Some 1) rest
            (pulse_seen k st (seen + 1) (emit [Sleep 1] (cleanup_completed_journal_futures s)))
          = Some (seen', s')" by simp
    from Cons.IH [OF this] show ?thesis by simp
  qed
qed

lemma fake_wait_loop_spec:
  assumes "seen < k" and "maxtime s = limit" and "fake_decided k seen start limit obs"
  shows "\<exists>s'. fake_wait_loop k st start seen prev obs s =
            Some (fake_counted k seen start limit obs, s') \<and>
          async_writes (effects s') = async_writes (effects s) @
            countdown st k (seen + 1) (fake_counted k seen start limit obs) \<and>
          status s' =
            last_or (status s) (countdown st k (seen + 1) (fake_counted k seen start limit obs))"
  using assms
proof (induction obs arbitrary: seen prev s)
  case Nil
  then show ?case by (simp add: fake_decided_def)
next
  case (Cons tick rest)
  obtain now x where tick: "tick = (now, x)" by (cases tick)
  note lim = \<open>maxtime s = limit\<close>
  show ?case
  proof (cases "now - start < of_int limit")
    case False
    have c: "fake_counted k seen start limit (tick # rest) = seen"
      using False Cons.prems(1) by (simp add: tick fake_counted_stop)
    have r: "fake_wait_loop k st start seen prev (tick # rest) s = Some (seen, s)"
      unfolding tick using False lim by (intro fake_wait_loop_stop) simp
    show ?thesis unfolding c r by (simp add: last_or_def)
  next
    case True
    define s2 where
      "s2 = pulse_seen k st (seen + 1) (emit [Sleep 1] (cleanup_completed_journal_futures s))"
    have s2: "maxtime s2 = limit"
      "async_writes (effects s2) = async_writes (effects s) @ countdown st k (seen + 1) (seen + 1)"
      "status s2 = last_or (status s) (countdown st k (seen + 1) (seen + 1))"
      by (simp_all add: s2_def lim pulse_seen_writes pulse_seen_status)
    have r: "fake_wait_loop k st start seen prev (tick # rest) s =
               fake_wait_loop k st start (seen + 1) (Some 1) rest s2"
      unfolding tick s2_def using True lim Cons.prems(1) by (intro fake_wait_loop_step) simp_all
    have c: "fake_counted k seen start limit (tick # rest) = fake_counted k (seen + 1) start limit rest"
      using True by (simp add: tick fake_counted_step)
    have d: "fake_decided k (seen + 1) start limit rest"
      using Cons.prems(3) True by (simp add: tick fake_decided_step)
    show ?thesis
    proof (cases "seen + 1 < k")
      case more: True
      define m where "m = fake_counted k (seen + 1) start limit rest"
      from Cons.IH [OF more s2(1) d] obtain s' where
        r': "fake_wait_loop k st start (seen + 1) (Some 1) rest s2 = Some (m, s')"
        and w: "async_writes (effects s') = async_writes (effects s2) @ countdown st k (seen + 1 + 1) m"
        and t: "status s' = last_or (status s2) (countdown st k (seen + 1 + 1) m)"
        unfolding m_def by blast
      have le: "seen + 1 \<le> m"
        unfolding m_def using more by (intro fake_counted_bounds) simp
      have cd: "countdown st k (seen + 1) (seen + 1) @ countdown st k (seen + 1 + 1) m
                  = countdown st k (seen + 1) m"
        by (rule countdown_step [OF le])
      have w': "async_writes (effects s') = async_writes (effects s) @ countdown st k (seen + 1) m"
        unfolding w s2 using cd by simp
      have t': "status s' = last_or (status s) (countdown st k (seen + 1) m)"
        unfolding t s2 last_or_append cd ..
      show ?thesis
        unfolding c r m_def [symmetric] using r' w' t' by blast
    next
      case more: False
      then have k: "seen + 1 = k" using Cons.prems(1) by simp
      have r': "fake_wait_loop k st start (seen + 1) (Some 1) rest s2 = Some (seen + 1, s2)"
        by (rule fake_wait_loop_done) (simp add: k)
      have c': "fake_counted k (seen + 1) start limit rest = seen + 1"
        using fake_counted_full [of k] k by simp
      show ?thesis
        unfolding c r c' r' using s2 by simp
    qed
  qed
qed

lemma wait_pulses_spec:
  assumes "k \<le> pulses_in_time e s \<or> timed_out e s"
  shows "\<exists>s'. wait_pulses k st e s = Some (k \<le> pulses_in_time e s, s') \<and>
          async_writes (effects s') =
            async_writes (effects s) @ countdown st k 1 (min k (pulses_in_time e s)) \<and>
          status s' = last_or (status s) (countdown st k 1 (min k (pulses_in_time e s))) \<and>
          maxtime s' = maxtime s \<and> gpio_initialized s' = gpio_initialized s \<and>
          motor_busy s' = motor_busy s \<and> faking_it s' = faking_it s"
proof (cases "0 < k")
  case False
  then have "wait_loop k st (start_time e) 0 None (ticks e) s = Some (0, s)"
    by (intro wait_loop_done) simp
  moreover have "k \<le> pulses_in_time e s" using False by (simp add: pulses_in_time_def)
  moreover have "countdown st k 1 (min k (pulses_in_time e s)) = []"
    using False by (intro countdown_empty) simp
  ultimately show ?thesis using False by (simp add: wait_pulses_def last_or_def)
next
  case True
  have c: "counted k 0 None (start_time e) (maxtime s) (ticks e) = min k (pulses_in_time e s)"
    by (simp add: counted_def pulses_in_time_def rising_edges_def live_ticks_def)
  have d: "decided k 0 None (start_time e) (maxtime s) (ticks e)"
    using assms
    by (simp add: decided_def pulses_in_time_def rising_edges_def live_ticks_def timed_out_def)
  from wait_loop_spec [OF True refl d, of st] obtain s' where
    r: "wait_loop k st (start_time e) 0 None (ticks e) s = Some (min k (pulses_in_time e s), s')"
    and w: "async_writes (effects s') =
              async_writes (effects s) @ countdown st k (0 + 1) (min k (pulses_in_time e s))"
    and t: "status s' = last_or (status s) (countdown st k (0 + 1) (min k (pulses_in_time e s)))"
    unfolding c by blast
  from wait_loop_frame [OF r] have f: "maxtime s' = maxtime s" "gpio_initialized s' = gpio_initialized s"
      "motor_busy s' = motor_busy s" "faking_it s' = faking_it s" by simp_all
  have "wait_pulses k st e s = Some (k \<le> pulses_in_time e s, s')"
    by (simp add: wait_pulses_def r)
  with w t f show ?thesis by simp
qed

lemma fake_wait_pulses_spec:
  assumes "k \<le> passes_in_time e s \<or> timed_out e s"
  shows "\<exists>s'. fake_wait_pulses k st e s = Some (k \<le> passes_in_time e s, s') \<and>
          async_writes (effects s') =
            async_writes (effects s) @ countdown st k 1 (min k (passes_in_time e s)) \<and>
          status s' = last_or (status s) (countdown st k 1 (min k (passes_in_time e s))) \<and>
          maxtime s' = maxtime s \<and> gpio_initialized s' = gpio_initialized s \<and>
          motor_busy s' = motor_busy s \<and> faking_it s' = faking_it s"
proof (cases "0 < k")
  case False
  then have "fake_wait_loop k st (start_time e) 0 None (ticks e) s = Some (0, s)"
    by (intro fake_wait_loop_done) simp
  moreover have "k \<le> passes_in_time e s" using False by (simp add: passes_in_time_def)
  moreover have "countdown st k 1 (min k (passes_in_time e s)) = []"
    using False by (intro countdown_empty) simp
  ultimately show ?thesis using False by (simp add: fake_wait_pulses_def last_or_def)
next
  case True
  have c: "fake_counted k 0 (start_time e) (maxtime s) (ticks e) = min k (passes_in_time e s)"
    by (simp add: fake_counted_def passes_in_time_def live_ticks_def)
  have d: "fake_decided k 0 (start_time e) (maxtime s) (ticks e)"
    using assms
    by (simp add: fake_decided_def passes_in_time_def live_ticks_def timed_out_def)
  from fake_wait_loop_spec [OF True refl d, of st None] obtain s' where
    r: "fake_wait_loop k st (start_time e) 0 None (ticks e) s = Some (min k (passes_in_time e s), s')"
    and w: "async_writes (effects s') =
              async_writes (effects s) @ countdown st k (0 + 1) (min k (passes_in_time e s))"
    and t: "status s' = last_or (status s) (countdown st k (0 + 1) (min k (passes_in_time e s)))"
    unfolding c by blast
  from fake_wait_loop_frame [OF r] have f: "maxtime s' = maxtime s" "gpio_initialized s' = gpio_initialized s"
      "motor_busy s' = motor_busy s" "faking_it s' = faking_it s" by simp_all
  have "fake_wait_pulses k st e s = Some (k \<le> passes_in_time e s, s')"
    by (simp add: fake_wait_pulses_def r)
  with w t f show ?thesis by simp
qed

section \<open>Runs of open and close\<close>

lemma stop_fields [simp]:
  "maxtime (stop_and_housekeeping s) = maxtime s"
  "faking_it (stop_and_housekeeping s) = faking_it s"
  "status (stop_and_housekeeping s) = status s"
  "journal_file (stop_and_housekeeping s) = journal_file s"
  "gpio_initialized (stop_and_housekeeping s) = True"
  "motor_busy (stop_and_housekeeping s) = False"
  "journal_futures (stop_and_housekeeping s) = []"
  by (simp_all add: stop_and_housekeeping_def gpio_setup_def Let_def)

lemma stop_effects:
  "gpio_initialized s \<Longrightarrow>
   effects (stop_and_housekeeping s) = effects s @ [Output CH1 1, Output CH2 1, Sleep 0.25]"
  by (simp add: stop_and_housekeeping_def gpio_setup_def Let_def)

lemma forward_granted:
  assumes "\<not> motor_busy s"
  shows "fst (forward s) = True" and "maxtime (snd (forward s)) = maxtime s"
    and "faking_it (snd (forward s)) = faking_it s" and "gpio_initialized (snd (forward s))"
    and "status (snd (forward s)) = status s" and "\<not> motor_busy (snd (forward s))"
  using assms by (simp_all add: forward_def Let_def)

lemma reverse_granted:
  assumes "\<not> motor_busy s"
  shows "fst (reverse s) = True" and "maxtime (snd (reverse s)) = maxtime s"
    and "faking_it (snd (reverse s)) = faking_it s" and "gpio_initialized (snd (reverse s))"
    and "status (snd (reverse s)) = status s" and "\<not> motor_busy (snd (reverse s))"
  using assms by (simp_all add: reverse_def Let_def)

lemma same_limit:
  assumes "maxtime s' = maxtime s"
  shows "pulses_in_time e s' = pulses_in_time e s" and "passes_in_time e s' = passes_in_time e s"
    and "timed_out e s' = timed_out e s"
  using assms by (simp_all add: pulses_in_time_def passes_in_time_def timed_out_def live_ticks_def)

text \<open>
  Either loop, as \<^verbatim>\<open>open\<close> and \<^verbatim>\<open>close\<close> choose it.
\<close>

lemma chosen_wait_spec:
  assumes "k \<le> pulses_counted e s \<or> timed_out e s"
  shows "\<exists>s'. (if faking_it s then fake_wait_pulses k st e s else wait_pulses k st e s)
             = Some (k \<le> pulses_counted e s, s') \<and>
          async_writes (effects s') =
            async_writes (effects s) @ countdown st k 1 (min k (pulses_counted e s)) \<and>
          gpio_initialized s' = gpio_initialized s \<and> motor_busy s' = motor_busy s"
proof (cases "faking_it s")
  case True
  then have eq: "pulses_counted e s = passes_in_time e s" by (simp add: pulses_counted_def)
  from assms have "k \<le> passes_in_time e s \<or> timed_out e s" unfolding eq .
  from fake_wait_pulses_spec [OF this, of st] obtain s' where
    r: "fake_wait_pulses k st e s = Some (k \<le> passes_in_time e s, s')"
    and w: "async_writes (effects s') =
              async_writes (effects s) @ countdown st k 1 (min k (passes_in_time e s))"
    and g: "gpio_initialized s' = gpio_initialized s" and b: "motor_busy s' = motor_busy s"
    by (elim exE conjE)
  have "(if faking_it s then fake_wait_pulses k st e s else wait_pulses k st e s)
          = Some (k \<le> passes_in_time e s, s')"
    using True r by simp
  then show ?thesis unfolding eq using w g b by (intro exI [of _ s'] conjI)
next
  case False
  then have eq: "pulses_counted e s = pulses_in_time e s" by (simp add: pulses_counted_def)
  from assms have "k \<le> pulses_in_time e s \<or> timed_out e s" unfolding eq .
  from wait_pulses_spec [OF this, of st] obtain s' where
    r: "wait_pulses k st e s = Some (k \<le> pulses_in_time e s, s')"
    and w: "async_writes (effects s') =
              async_writes (effects s) @ countdown st k 1 (min k (pulses_in_time e s))"
    and g: "gpio_initialized s' = gpio_initialized s" and b: "motor_busy s' = motor_busy s"
    by (elim exE conjE)
  have "(if faking_it s then fake_wait_pulses k st e s else wait_pulses k st e s)
          = Some (k \<le> pulses_in_time e s, s')"
    using False r by simp
  then show ?thesis unfolding eq using w g b by (intro exI [of _ s'] conjI)
qed

lemma same_counted:
  assumes "maxtime s' = maxtime s" and "faking_it s' = faking_it s"
  shows "pulses_counted e s' = pulses_counted e s"
  using assms(2) by (simp add: pulses_counted_def same_limit [OF assms(1)])

lemma finish_run:
  "(case Some (r, s3) of
      None \<Rightarrow> None
    | Some (result, s') \<Rightarrow>
        (let s4 = stop_and_housekeeping s' in
         if result then Some (Inr PyNone, update_status good False s4)
         else Some (Inr PyNone, update_status bad False s4)))
   = Some (Inr PyNone, update_status (if r then good else bad) False (stop_and_housekeeping s3))"
  by (simp add: Let_def)

lemma open_op_runs:
  assumes busy: "\<not> motor_busy s"
    and pre: "resuming \<or> status s = Some ''closed''"
    and k: "k = (case p of None \<Rightarrow> open_pulses s | Some q \<Rightarrow> q)"
    and s2: "s2 = (if resuming then snd (forward s)
                   else update_status ''opening'' True (snd (forward s)))"
    and dec: "k \<le> pulses_counted e s \<or> timed_out e s"
  shows "\<exists>s3. (if faking_it s2 then fake_wait_pulses k (Some ''opening'') e s2
                else wait_pulses k (Some ''opening'') e s2)
               = Some (k \<le> pulses_counted e s, s3) \<and>
              async_writes (effects s3) =
                async_writes (effects s2) @
                  countdown (Some ''opening'') k 1 (min k (pulses_counted e s)) \<and>
              gpio_initialized s3 \<and>
              open_op p resuming e s =
                Some (Inr PyNone,
                      update_status (if k \<le> pulses_counted e s then ''open'' else ''failed opening'')
                        False (stop_and_housekeeping s3))"
proof -
  note fw = forward_granted [OF busy]
  have m: "maxtime s2 = maxtime s" and f: "faking_it s2 = faking_it s"
    and g: "gpio_initialized s2"
    using fw by (simp_all add: s2)
  have cnt: "pulses_counted e s2 = pulses_counted e s" by (rule same_counted [OF m f])
  have tmo: "timed_out e s2 = timed_out e s" by (rule same_limit [OF m])
  from dec have "k \<le> pulses_counted e s2 \<or> timed_out e s2" by (simp add: cnt tmo)
  from chosen_wait_spec [OF this, of "Some ''opening''"] obtain s3 where
    r: "(if faking_it s2 then fake_wait_pulses k (Some ''opening'') e s2
         else wait_pulses k (Some ''opening'') e s2) = Some (k \<le> pulses_counted e s, s3)"
    and w: "async_writes (effects s3) =
              async_writes (effects s2) @ countdown (Some ''opening'') k 1 (min k (pulses_counted e s))"
    and g3': "gpio_initialized s3 = gpio_initialized s2"
    unfolding cnt by (elim exE conjE)
  have g3: "gpio_initialized s3" using g3' g by simp
  have fwd: "forward s = (True, snd (forward s))"
    using fw(1) by (cases "forward s") simp
  have s2': "(if \<not> resuming then update_status ''opening'' True (snd (forward s))
              else snd (forward s)) = s2"
    by (simp add: s2)
  have guard: "\<not> (\<not> resuming \<and> status s \<noteq> Some ''closed'')" using pre by auto
  have "open_op p resuming e s =
          Some (Inr PyNone,
                update_status (if k \<le> pulses_counted e s then ''open'' else ''failed opening'')
                  False (stop_and_housekeeping s3))"
    unfolding open_op_def k [symmetric] Let_def
    apply (subst fwd)
    apply (simp only: guard if_False prod.case bool.case s2' r)
    apply (rule finish_run [unfolded Let_def])
    done
  with r w g3 show ?thesis by (intro exI [of _ s3] conjI)
qed

lemma close_op_runs:
  assumes busy: "\<not> motor_busy s"
    and pre: "resuming \<or> status s = Some ''open''"
    and k: "k = (case p of None \<Rightarrow> close_pulses s | Some q \<Rightarrow> q)"
    and s2: "s2 = (if resuming then snd (reverse s)
                   else update_status ''closing'' True (snd (reverse s)))"
    and dec: "k \<le> pulses_counted e s \<or> timed_out e s"
  shows "\<exists>s3. (if faking_it s2 then fake_wait_pulses k (Some ''closing'') e s2
                else wait_pulses k (Some ''closing'') e s2)
               = Some (k \<le> pulses_counted e s, s3) \<and>
              async_writes (effects s3) =
                async_writes (effects s2) @
                  countdown (Some ''closing'') k 1 (min k (pulses_counted e s)) \<and>
              gpio_initialized s3 \<and>
              close_op p resuming e s =
                Some (Inr PyNone,
                      update_status (if k \<le> pulses_counted e s then ''closed'' else ''failed closing'')
                        False (stop_and_housekeeping s3))"
proof -
  note fw = reverse_granted [OF busy]
  have m: "maxtime s2 = maxtime s" and f: "faking_it s2 = faking_it s"
    and g: "gpio_initialized s2"
    using fw by (simp_all add: s2)
  have cnt: "pulses_counted e s2 = pulses_counted e s" by (rule same_counted [OF m f])
  have tmo: "timed_out e s2 = timed_out e s" by (rule same_limit [OF m])
  from dec have "k \<le> pulses_counted e s2 \<or> timed_out e s2" by (simp add: cnt tmo)
  from chosen_wait_spec [OF this, of "Some ''closing''"] obtain s3 where
    r: "(if faking_it s2 then fake_wait_pulses k (Some ''closing'') e s2
         else wait_pulses k (Some ''closing'') e s2) = Some (k \<le> pulses_counted e s, s3)"
    and w: "async_writes (effects s3) =
              async_writes (effects s2) @ countdown (Some ''closing'') k 1 (min k (pulses_counted e s))"
    and g3': "gpio_initialized s3 = gpio_initialized s2"
    unfolding cnt by (elim exE conjE)
  have g3: "gpio_initialized s3" using g3' g by simp
  have fwd: "reverse s = (True, snd (reverse s))"
    using fw(1) by (cases "reverse s") simp
  have s2': "(if \<not> resuming then update_status ''closing'' True (snd (reverse s))
              else snd (reverse s)) = s2"
    by (simp add: s2)
  have guard: "\<not> (\<not> resuming \<and> status s \<noteq> Some ''open'')" using pre by auto
  have "close_op p resuming e s =
          Some (Inr PyNone,
                update_status (if k \<le> pulses_counted e s then ''closed'' else ''failed closing'')
                  False (stop_and_housekeeping s3))"
    unfolding close_op_def k [symmetric] Let_def
    apply (subst fwd)
    apply (simp only: guard if_False prod.case bool.case s2' r)
    apply (rule finish_run [unfolded Let_def])
    done
  with r w g3 show ?thesis by (intro exI [of _ s3] conjI)
qed

lemma finished_state:
  assumes "gpio_initialized s3"
  shows "status (update_status T False (stop_and_housekeeping s3)) = Some T"
    and "journal_file (update_status T False (stop_and_housekeeping s3)) = Some T"
    and "\<not> motor_busy (update_status T False (stop_and_housekeeping s3))"
    and "last_effects 4 (update_status T False (stop_and_housekeeping s3)) =
           [Output CH1 1, Output CH2 1, Sleep 0.25, JournalSync T]"
  using assms by (simp_all add: last_effects_def stop_effects)

section \<open>How long the loops sleep\<close>

lemma sleeps_append [simp]: "sleeps (xs @ ys) = sleeps xs @ sleeps ys"
  by (induction xs rule: sleeps.induct) simp_all

lemma pulse_seen_sleeps [simp]: "sleeps (effects (pulse_seen k st n s)) = sleeps (effects s)"
  by (simp add: pulse_seen_def split: option.splits)

lemma wait_loop_sleeps:
  "wait_loop k st start seen prev obs s = Some (seen', s') \<Longrightarrow>
   \<exists>n. sleeps (effects s') = sleeps (effects s) @ replicate n 0.050"
proof (induction obs arbitrary: seen prev s)
  case Nil
  then have "s' = s" by (simp split: if_splits)
  then show ?case by (intro exI [of _ 0]) simp
next
  case (Cons tick rest)
  obtain now x where tick: "tick = (now, x)" by (cases tick)
  show ?case
  proof (cases "now - start < of_int (maxtime s) \<and> seen < k")
    case False
    with Cons.prems tick have "s' = s" by auto
    then show ?thesis by (intro exI [of _ 0]) simp
  next
    case True
    then have t: "now - start < of_int (maxtime s)" and l: "seen < k" by simp_all
    let ?s1 = "emit [Sleep 0.050] (cleanup_completed_journal_futures s)"
    from Cons.prems have
      "(if low_to_high prev x
        then wait_loop k st start (seen + 1) (Some x) rest (pulse_seen k st (seen + 1) ?s1)
        else wait_loop k st start seen (Some x) rest ?s1) = Some (seen', s')"
      unfolding tick wait_loop_step [OF t l] .
    then obtain sn seenn where
      r: "wait_loop k st start seenn (Some x) rest sn = Some (seen', s')"
      and sn: "sleeps (effects sn) = sleeps (effects s) @ [0.050]"
      by (cases "low_to_high prev x") simp_all
    from Cons.IH [OF r] obtain n where
      "sleeps (effects s') = sleeps (effects sn) @ replicate n 0.050" by (elim exE)
    then have "sleeps (effects s') = sleeps (effects s) @ replicate (Suc n) 0.050"
      by (simp add: sn)
    then show ?thesis by (intro exI [of _ "Suc n"])
  qed
qed

lemma fake_wait_loop_sleeps:
  "fake_wait_loop k st start seen prev obs s = Some (seen', s') \<Longrightarrow>
   sleeps (effects s') = sleeps (effects s) @ replicate (nat (seen' - seen)) 1"
proof (induction obs arbitrary: seen prev s)
  case Nil
  then have "s' = s" "seen' = seen" by (simp_all split: if_splits)
  then show ?case by simp
next
  case (Cons tick rest)
  obtain now x where tick: "tick = (now, x)" by (cases tick)
  show ?case
  proof (cases "now - start < of_int (maxtime s) \<and> seen < k")
    case False
    with Cons.prems tick have "s' = s" "seen' = seen" by auto
    then show ?thesis by simp
  next
    case True
    then have t: "now - start < of_int (maxtime s)" and l: "seen < k" by simp_all
    let ?s2 = "pulse_seen k st (seen + 1) (emit [Sleep 1] (cleanup_completed_journal_futures s))"
    from Cons.prems have r: "fake_wait_loop k st start (seen + 1) (Some 1) rest ?s2 = Some (seen', s')"
      unfolding tick fake_wait_loop_step [OF t l] .
    from fake_wait_loop_frame [OF r] have le: "seen + 1 \<le> seen'" by simp
    then have n: "nat (seen' - seen) = Suc (nat (seen' - (seen + 1)))" by simp
    from Cons.IH [OF r] have
      "sleeps (effects s') = sleeps (effects ?s2) @ replicate (nat (seen' - (seen + 1))) 1" .
    then show ?thesis unfolding n by simp
  qed
qed

lemma wait_pulses_sleeps:
  "wait_pulses k st e s = Some (r, s') \<Longrightarrow>
   \<exists>n. sleeps (effects s') = sleeps (effects s) @ replicate n 0.050"
  unfolding wait_pulses_def by (auto dest: wait_loop_sleeps)

section \<open>Further facts used by the claims\<close>

lemma fake_wait_pulses_sleeps:
  assumes "fake_wait_pulses k st e s = Some (r, s')"
    and "k \<le> passes_in_time e s \<or> timed_out e s"
  shows "sleeps (effects s') = sleeps (effects s) @ replicate (nat (min k (passes_in_time e s))) 1"
proof -
  from assms(1) obtain seen' where
    l: "fake_wait_loop k st (start_time e) 0 None (ticks e) s = Some (seen', s')"
    unfolding fake_wait_pulses_def by auto
  have "seen' = (if 0 < k then min k (passes_in_time e s) else 0)"
  proof (cases "0 < k")
    case True
    have c: "fake_counted k 0 (start_time e) (maxtime s) (ticks e) = min k (passes_in_time e s)"
      by (simp add: fake_counted_def passes_in_time_def live_ticks_def)
    have d: "fake_decided k 0 (start_time e) (maxtime s) (ticks e)"
      using assms(2)
      by (simp add: fake_decided_def passes_in_time_def live_ticks_def timed_out_def)
    from fake_wait_loop_spec [OF True refl d, of st None] obtain s'' where
      "fake_wait_loop k st (start_time e) 0 None (ticks e) s = Some (min k (passes_in_time e s), s'')"
      unfolding c by (elim exE conjE)
    with l True show ?thesis by simp
  next
    case False
    then have "fake_wait_loop k st (start_time e) 0 None (ticks e) s = Some (0, s)"
      by (intro fake_wait_loop_done) simp
    with l False show ?thesis by simp
  qed
  moreover have "0 \<le> passes_in_time e s" by (simp add: passes_in_time_def)
  ultimately have "nat (seen' - 0) = nat (min k (passes_in_time e s))" by auto
  with fake_wait_loop_sleeps [OF l] show ?thesis by simp
qed

lemma py_strip_empty_iff: "py_strip content = [] \<longleftrightarrow> list_all py_isspace content"
proof
  assume "py_strip content = []"
  then have a: "list_all py_isspace (dropWhile py_isspace content)"
    by (simp add: py_strip_def list_all_iff)
  show "list_all py_isspace content"
  proof (rule ccontr)
    assume "\<not> list_all py_isspace content"
    then have ne: "dropWhile py_isspace content \<noteq> []" by (simp add: list_all_iff)
    from hd_dropWhile [OF ne] have "\<not> py_isspace (hd (dropWhile py_isspace content))" .
    moreover from a ne have "py_isspace (hd (dropWhile py_isspace content))"
      by (cases "dropWhile py_isspace content") simp_all
    ultimately show False by simp
  qed
next
  assume "list_all py_isspace content"
  then have e: "dropWhile py_isspace content = []" by (simp add: list_all_iff)
  show "py_strip content = []" unfolding py_strip_def e by simp
qed

lemma py_strip_parts:
  "\<exists>before after. content = before @ py_strip content @ after \<and>
      list_all py_isspace before \<and> list_all py_isspace after"
proof -
  let ?d = "dropWhile py_isspace content"
  have 1: "content = takeWhile py_isspace content @ ?d" by simp
  have 2: "rev ?d = takeWhile py_isspace (rev ?d) @ dropWhile py_isspace (rev ?d)" by simp
  have "rev (rev ?d) = rev (takeWhile py_isspace (rev ?d) @ dropWhile py_isspace (rev ?d))"
    by (simp only: takeWhile_dropWhile_id)
  then have "?d = rev (dropWhile py_isspace (rev ?d)) @ rev (takeWhile py_isspace (rev ?d))"
    by (simp only: rev_rev_ident rev_append)
  then have 3: "?d = py_strip content @ rev (takeWhile py_isspace (rev ?d))"
    by (simp add: py_strip_def)
  have "content = takeWhile py_isspace content @ py_strip content @ rev (takeWhile py_isspace (rev ?d))"
    using 1 3 by metis
  moreover have "list_all py_isspace (takeWhile py_isspace content)"
    by (simp add: list_all_iff) (meson set_takeWhileD)
  moreover have "list_all py_isspace (rev (takeWhile py_isspace (rev ?d)))"
    by (simp add: list_all_iff) (meson set_takeWhileD)
  ultimately show ?thesis by blast
qed

lemma py_strip_ends:
  assumes "py_strip content \<noteq> []"
  shows "\<not> py_isspace (hd (py_strip content))" and "\<not> py_isspace (last (py_strip content))"
proof -
  let ?d = "dropWhile py_isspace content"
  let ?r = "dropWhile py_isspace (rev ?d)"
  from assms have r: "?r \<noteq> []" by (simp add: py_strip_def)
  from hd_dropWhile [OF r] have "\<not> py_isspace (hd ?r)" .
  then show "\<not> py_isspace (last (py_strip content))"
    using r by (simp add: py_strip_def last_rev)
  have d: "?d \<noteq> []"
  proof
    assume e: "?d = []"
    have "?r = []" unfolding e by simp
    with r show False ..
  qed
  from hd_dropWhile [OF d] have h: "\<not> py_isspace (hd ?d)" .
  have "rev ?d \<noteq> []" using d by simp
  then have "last (rev ?d) = hd ?d" by (simp add: last_rev)
  with h have "\<not> py_isspace (last (rev ?d))" by simp
  then have "last ?r = last (rev ?d)"
    using r by (metis dropWhile_eq_Nil_conv last_appendR takeWhile_dropWhile_id)
  then have "hd (rev ?r) = hd ?d"
    using r \<open>last (rev ?d) = hd ?d\<close> by (simp add: hd_rev)
  with h show "\<not> py_isspace (hd (py_strip content))" by (simp add: py_strip_def)
qed

lemma resume_in_progress:
  assumes "status s = Some (token @ '' '' @ str_int n)"
    and "token = ''opening'' \<or> token = ''closing''"
  shows "resume e s = resume_dispatch token (Some n) e s"
proof -
  have sp: "py_split (token @ '' '' @ str_int n) = [token, str_int n]"
    by (rule split_status [OF assms(2)])
  show ?thesis
    unfolding resume_def using assms
    by (simp add: sp Let_def py_int_str_int del: append.simps)
qed

lemma resume_malformed:
  assumes "status s = Some line" and "py_split line = token # arg # others"
    and "token = ''opening'' \<or> token = ''closing''" and "py_int arg = None"
  shows "resume e s = Some (Inr False, s)"
  unfolding resume_def using assms by (auto simp add: Let_def)

lemma forward_writes:
  "async_writes (effects (snd (forward s))) = async_writes (effects s)"
  "async_writes (effects (snd (reverse s))) = async_writes (effects s)"
  "async_writes (effects (stop_and_housekeeping s)) = async_writes (effects s)"
  by (simp_all add: forward_def reverse_def stop_and_housekeeping_def gpio_setup_def Let_def)

lemma resume_runs:
  assumes st: "status s = Some (token @ '' '' @ str_int n)"
    and tok: "token = ''opening'' \<or> token = ''closing''"
    and busy: "\<not> motor_busy s"
    and dec: "n \<le> pulses_counted e s \<or> timed_out e s"
  shows "\<exists>s3. gpio_initialized s3 \<and>
          async_writes (effects s3) =
            async_writes (effects s) @ countdown (Some token) n 1 (min n (pulses_counted e s)) \<and>
          resume e s =
            Some (Inr True,
                  update_status
                    (if token = ''opening''
                     then (if n \<le> pulses_counted e s then ''open'' else ''failed opening'')
                     else (if n \<le> pulses_counted e s then ''closed'' else ''failed closing''))
                    False (stop_and_housekeeping s3))"
proof (cases "token = ''opening''")
  case True
  have k: "n = (case Some n of None \<Rightarrow> open_pulses s | Some q \<Rightarrow> q)" by simp
  have s2: "snd (forward s) = (if True then snd (forward s)
              else update_status ''opening'' True (snd (forward s)))" by simp
  have pre: "True \<or> status s = Some ''closed''" by simp
  from open_op_runs [OF busy pre k s2 dec] obtain s3 where
    w: "async_writes (effects s3) =
          async_writes (effects (snd (forward s))) @
            countdown (Some ''opening'') n 1 (min n (pulses_counted e s))"
    and g: "gpio_initialized s3"
    and r: "open_op (Some n) True e s =
              Some (Inr PyNone,
                    update_status (if n \<le> pulses_counted e s then ''open'' else ''failed opening'')
                      False (stop_and_housekeeping s3))"
    by (elim exE conjE)
  have "resume e s = returning_True (open_op (Some n) True e s)"
    unfolding resume_in_progress [OF st tok] using True by (simp add: resume_dispatch_def)
  then have "resume e s =
      Some (Inr True,
            update_status (if n \<le> pulses_counted e s then ''open'' else ''failed opening'')
              False (stop_and_housekeeping s3))"
    unfolding r by (simp add: returning_True_def)
  with g w True show ?thesis
    by (intro exI [of _ s3]) (simp add: forward_writes)
next
  case False
  with tok have c: "token = ''closing''" by simp
  have k: "n = (case Some n of None \<Rightarrow> close_pulses s | Some q \<Rightarrow> q)" by simp
  have s2: "snd (reverse s) = (if True then snd (reverse s)
              else update_status ''closing'' True (snd (reverse s)))" by simp
  have pre: "True \<or> status s = Some ''open''" by simp
  from close_op_runs [OF busy pre k s2 dec] obtain s3 where
    w: "async_writes (effects s3) =
          async_writes (effects (snd (reverse s))) @
            countdown (Some ''closing'') n 1 (min n (pulses_counted e s))"
    and g: "gpio_initialized s3"
    and r: "close_op (Some n) True e s =
              Some (Inr PyNone,
                    update_status (if n \<le> pulses_counted e s then ''closed'' else ''failed closing'')
                      False (stop_and_housekeeping s3))"
    by (elim exE conjE)
  have "resume e s = returning_True (close_op (Some n) True e s)"
    unfolding resume_in_progress [OF st tok] using c by (simp add: resume_dispatch_def)
  then have "resume e s =
      Some (Inr True,
            update_status (if n \<le> pulses_counted e s then ''closed'' else ''failed closing'')
              False (stop_and_housekeeping s3))"
    unfolding r by (simp add: returning_True_def)
  with g w c show ?thesis
    by (intro exI [of _ s3]) (simp add: forward_writes)
qed

lemma init_without_status:
  assumes "load_journal file = None"
  shows "init file fake_it op cl mt r e =
           Some (Inr (),
                 \<lparr>journal_file = file, gpio_initialized = \<not> fake_it, journal_futures = [],
                  motor_busy = False, faking_it = fake_it, open_pulses = op,
                  close_pulses = cl, maxtime = 30, status = None,
                  effects = (if fake_it then [] else [Setup CH1, Setup CH2, Setup PULSE])\<rparr>)"
  using assms by (simp add: init_def gpio_setup_def emit_def Let_def)

section \<open>The example observations, evaluated\<close>

lemma two_pulses_count: "pulses_in_time two_pulses example_closed = 2"
  by (simp add: pulses_in_time_def live_ticks_def rising_edges_def low_to_high_def
      two_pulses_def example_closed_def)

lemma late_pulse_count:
  "pulses_in_time late_pulse example_closed = 1" "timed_out late_pulse example_closed"
  by (simp_all add: pulses_in_time_def live_ticks_def rising_edges_def low_to_high_def
      timed_out_def late_pulse_def example_closed_def)

lemma countdown_values:
  "countdown (Some ''opening'') 2 1 2 = [''opening 1'', ''opening 0'']"
  "countdown (Some ''opening'') 2 1 1 = [''opening 1'']"
  by (simp_all add: countdown_def upto.simps str_int_def str_nat.simps digit_char_values)

lemma two_pulses_passes:
  "passes_in_time two_pulses example_closed = 5" "pulses_in_time two_pulses example_closed = 2"
  by (simp_all add: passes_in_time_def pulses_in_time_def live_ticks_def rising_edges_def
      low_to_high_def two_pulses_def example_closed_def)

lemma example_counts:
  "pulses_counted two_pulses example_closed = 2"
  "pulses_counted late_pulse example_open = 1"
  "timed_out late_pulse example_open"
  by (simp_all add: pulses_counted_def pulses_in_time_def live_ticks_def rising_edges_def
      low_to_high_def timed_out_def two_pulses_def late_pulse_def example_closed_def
      example_open_def)

lemma interrupted_facts:
  "status interrupted_opening = Some (''opening'' @ '' '' @ str_int 3)"
  "\<not> motor_busy interrupted_opening"
  "effects interrupted_opening = []"
  "pulses_counted three_pulses interrupted_opening = 3"
  "pulses_counted late_pulse interrupted_opening = 1"
  "timed_out late_pulse interrupted_opening"
  "status interrupted_closing = Some (''closing'' @ '' '' @ str_int 3)"
  "\<not> motor_busy interrupted_closing"
  "effects interrupted_closing = []"
  "pulses_counted three_pulses interrupted_closing = 7"
  by (simp_all add: interrupted_opening_def interrupted_closing_def str_int_def str_nat.simps
      digit_char_values pulses_counted_def pulses_in_time_def passes_in_time_def live_ticks_def
      rising_edges_def low_to_high_def timed_out_def three_pulses_def late_pulse_def)

lemma countdown_three:
  "countdown (Some ''opening'') 3 1 3 = [''opening 2'', ''opening 1'', ''opening 0'']"
  "countdown (Some ''closing'') 3 1 3 = [''closing 2'', ''closing 1'', ''closing 0'']"
  by (simp_all add: countdown_def upto.simps str_int_def str_nat.simps digit_char_values)

lemma malformed_example:
  "py_split ''opening x3'' = [''opening'', ''x3'']" "py_int ''x3'' = None"
  by (simp_all add: py_split_def py_isspace_def py_int_def py_strip_def is_digit_def)

section \<open>The busy flag\<close>

text \<open>
  C1 (the busy flag is set when the drive begins and stays set until the stop at the end of
  the operation, so that a second operation during the pulse-wait loop is rejected as busy
  and touches no output): the code does otherwise. \<^verbatim>\<open>forward()\<close> sets the flag and then
  calls \<^verbatim>\<open>stop_and_housekeeping()\<close>, which clears it, so the flag is already false when
  \<^verbatim>\<open>forward()\<close> returns and throughout the loop. Evaluated on a controller at
  \<open>closed\<close>: the drive is acquired, the flag is false after \<^verbatim>\<open>forward()\<close> and on entry
  to the loop, and a second \<^verbatim>\<open>forward()\<close> at that moment is granted and writes the output
  channels; a \<^verbatim>\<open>resume()\<close> at that moment drives the motor and returns \<open>True\<close>.
\<close>

theorem busy_flag_cleared_before_wait:
  "fst (forward example_closed) = True \<and>
   motor_busy (snd (forward example_closed)) = False \<and>
   motor_busy in_flight_open = False \<and>
   forward in_flight_open =
     (True, emit [Output CH1 1, Output CH2 1, Sleep 0.25, Output CH1 0]
              (in_flight_open\<lparr>journal_futures := []\<rparr>)) \<and>
   map_option fst (resume late_pulse in_flight_open) = Some (Inr True)"
  by (simp add: in_flight_open_def example_closed_def late_pulse_def forward_def
      stop_and_housekeeping_def gpio_setup_def emit_def update_status_def write_journal_def
      resume_def resume_dispatch_def returning_True_def open_op_def wait_pulses_def
      cleanup_completed_journal_futures_def pulse_seen_def py_split_def py_isspace_def
      str_int_def str_nat.simps CH1_def CH2_def Let_def)

section \<open>The configured run time\<close>

text \<open>
  C2 (the time limit of the pulse-wait loop is the \<^verbatim>\<open>maxtime\<close> argument of the
  constructor): the code does otherwise. The constructor stores the constant 30 whatever the
  argument is. Evaluated with \<^verbatim>\<open>maxtime=5\<close>: the object's limit is 30, and an
  \<^verbatim>\<open>open()\<close> whose only pulse arrives after ten seconds still succeeds.
\<close>

theorem maxtime_argument_ignored:
  "map_option (maxtime \<circ> snd) (init (Some ''closed'') False 1 1 5 False late_pulse) = Some 30 \<and>
   map_option (status \<circ> snd)
     (case init (Some ''closed'') False 1 1 5 False late_pulse of
        None \<Rightarrow> None
      | Some (outcome, s) \<Rightarrow> open_op None False late_pulse s) = Some (Some ''open'')"
  by (simp add: init_def load_journal_def py_strip_def py_isspace_def gpio_setup_def emit_def
      late_pulse_def open_op_def forward_def stop_and_housekeeping_def update_status_def
      write_journal_def wait_pulses_def cleanup_completed_journal_futures_def pulse_seen_def
      str_int_def str_nat.simps CH1_def CH2_def PULSE_def Let_def)

section \<open>Preconditions of open and close\<close>

text \<open>
  C6: a non-resuming \<^verbatim>\<open>open()\<close> on a status other than \<open>closed\<close>, and a non-resuming
  \<^verbatim>\<open>close()\<close> on a status other than \<open>open\<close>, return \<^verbatim>\<open>False\<close> and leave the
  object as it was: the status, the journal file and everything else.
\<close>

theorem wrong_state_rejected:
  "(status s \<noteq> Some ''closed'' \<longrightarrow>
      open_op pulses False e s = Some (Inr (PyBool False), s)) \<and>
   (status s \<noteq> Some ''open'' \<longrightarrow>
      close_op pulses False e s = Some (Inr (PyBool False), s))"
  by (simp add: open_op_def close_op_def)

theorem wrong_state_rejected_witness:
  "status example_open \<noteq> Some ''closed'' \<and>
   open_op None False two_pulses example_open = Some (Inr (PyBool False), example_open) \<and>
   status example_closed \<noteq> Some ''open'' \<and>
   close_op (Some 3) False two_pulses example_closed = Some (Inr (PyBool False), example_closed)"
  using wrong_state_rejected [of example_open None two_pulses]
    wrong_state_rejected [of example_closed "Some 3" two_pulses]
  by (simp add: example_open_def example_closed_def)

section \<open>The contract of wait_pulses\<close>

text \<open>
  C3: for every target \<open>k\<close>, status prefix and observations that determine the outcome (the
  target is reached in time, or the clock is seen to pass the limit), \<^verbatim>\<open>wait_pulses\<close>
  returns, and it returns \<open>True\<close> exactly when at least \<open>k\<close> pulses occur among the samples
  read before the time limit, where a pulse is a sample higher than the one before it and the
  first sample, having none before it, is only a baseline. With a truthy prefix the statuses
  it hands to the executor are the prefix followed by the remaining count \<open>k - 1\<close>,
  \<open>k - 2\<close>, ... one for each pulse counted, and the status it leaves is the last of them;
  without one it writes nothing.
\<close>

theorem wait_pulses_contract:
  assumes "k \<le> pulses_in_time e s \<or> timed_out e s"
  shows "\<exists>s'. wait_pulses k st e s = Some (k \<le> pulses_in_time e s, s') \<and>
          async_writes (effects s') =
            async_writes (effects s) @ countdown st k 1 (min k (pulses_in_time e s)) \<and>
          status s' = last_or (status s) (countdown st k 1 (min k (pulses_in_time e s)))"
proof -
  from wait_pulses_spec [OF assms, of st] obtain s' where
    "wait_pulses k st e s = Some (k \<le> pulses_in_time e s, s')"
    "async_writes (effects s') =
       async_writes (effects s) @ countdown st k 1 (min k (pulses_in_time e s))"
    "status s' = last_or (status s) (countdown st k 1 (min k (pulses_in_time e s)))"
    by (elim exE conjE)
  then show ?thesis by (intro exI [of _ s'] conjI)
qed

theorem wait_pulses_contract_witness:
  "(2 \<le> pulses_in_time two_pulses example_closed \<or> timed_out two_pulses example_closed) \<and>
   (\<exists>s'. wait_pulses 2 (Some ''opening'') two_pulses example_closed = Some (True, s') \<and>
      async_writes (effects s') = [''opening 1'', ''opening 0''] \<and>
      status s' = Some ''opening 0'') \<and>
   (2 \<le> pulses_in_time late_pulse example_closed \<or> timed_out late_pulse example_closed) \<and>
   (\<exists>s'. wait_pulses 2 (Some ''opening'') late_pulse example_closed = Some (False, s') \<and>
      async_writes (effects s') = [''opening 1''] \<and>
      status s' = Some ''opening 1'')"
proof -
  have a: "2 \<le> pulses_in_time two_pulses example_closed \<or> timed_out two_pulses example_closed"
    by (simp add: two_pulses_count)
  have b: "2 \<le> pulses_in_time late_pulse example_closed \<or> timed_out late_pulse example_closed"
    by (simp add: late_pulse_count)
  have e: "effects example_closed = []" "status example_closed = Some ''closed''"
    by (simp_all add: example_closed_def)
  from wait_pulses_contract [OF a, of "Some ''opening''"]
  have 1: "\<exists>s'. wait_pulses 2 (Some ''opening'') two_pulses example_closed = Some (True, s') \<and>
      async_writes (effects s') = [''opening 1'', ''opening 0''] \<and>
      status s' = Some ''opening 0''"
    by (simp add: two_pulses_count countdown_values e last_or_def)
  from wait_pulses_contract [OF b, of "Some ''opening''"]
  have 2: "\<exists>s'. wait_pulses 2 (Some ''opening'') late_pulse example_closed = Some (False, s') \<and>
      async_writes (effects s') = [''opening 1''] \<and>
      status s' = Some ''opening 1''"
    by (simp add: late_pulse_count countdown_values e last_or_def)
  from a 1 b 2 show ?thesis by (intro conjI)
qed

section \<open>The simulated loop against the physical one\<close>

text \<open>
  C9 claims that \<^verbatim>\<open>fake_wait_pulses\<close> keeps the contract of \<^verbatim>\<open>wait_pulses\<close>,
  the discarded first sample included. It does not: it sets \<open>last_state\<close> to 0 and
  \<open>state\<close> to 1 on every pass, so the branch that takes the baseline is never entered and
  the very first pass counts. With a single pass in time and a target of one pulse the
  simulated loop returns \<open>True\<close>, where the physical loop on the same observations returns
  \<open>False\<close> and the contract counts no pulse.
\<close>

theorem fake_counts_first_pass:
  "map_option fst (fake_wait_pulses 1 None one_pass example_closed) = Some True \<and>
   map_option fst (wait_pulses 1 None one_pass example_closed) = Some False \<and>
   passes_in_time one_pass example_closed = 1 \<and>
   pulses_in_time one_pass example_closed = 0"
  by (simp add: fake_wait_pulses_def wait_pulses_def one_pass_def example_closed_def
      cleanup_completed_journal_futures_def emit_def pulse_seen_def passes_in_time_def
      pulses_in_time_def live_ticks_def rising_edges_def low_to_high_def)

text \<open>
  C9, as the code has it: the simulated loop reads no input and takes no baseline; every pass
  made before the time limit counts as one pulse. Whenever the observations determine the
  outcome it returns, with \<open>True\<close> exactly when the target is at most the number of passes
  in time, and it makes the per-pulse status updates of the physical loop, to which it stands
  as passes stand to pulses. It sleeps one second for each pulse it counts, where the physical
  loop sleeps 50 ms on each pass.
\<close>

theorem simulated_wait_counts_passes:
  "(k \<le> passes_in_time e s \<or> timed_out e s \<longrightarrow>
      (\<exists>s'. fake_wait_pulses k st e s = Some (k \<le> passes_in_time e s, s') \<and>
         async_writes (effects s') =
           async_writes (effects s) @ countdown st k 1 (min k (passes_in_time e s)) \<and>
         status s' = last_or (status s) (countdown st k 1 (min k (passes_in_time e s))) \<and>
         sleeps (effects s') =
           sleeps (effects s) @ replicate (nat (min k (passes_in_time e s))) 1)) \<and>
   (k \<le> pulses_in_time e s \<or> timed_out e s \<longrightarrow>
      (\<exists>s'. wait_pulses k st e s = Some (k \<le> pulses_in_time e s, s') \<and>
         async_writes (effects s') =
           async_writes (effects s) @ countdown st k 1 (min k (pulses_in_time e s)) \<and>
         status s' = last_or (status s) (countdown st k 1 (min k (pulses_in_time e s))) \<and>
         (\<exists>n. sleeps (effects s') = sleeps (effects s) @ replicate n 0.050)))"
proof (intro conjI impI)
  assume h: "k \<le> passes_in_time e s \<or> timed_out e s"
  from fake_wait_pulses_spec [OF h, of st] obtain s' where
    r: "fake_wait_pulses k st e s = Some (k \<le> passes_in_time e s, s')"
    and w: "async_writes (effects s') =
       async_writes (effects s) @ countdown st k 1 (min k (passes_in_time e s))"
    and t: "status s' = last_or (status s) (countdown st k 1 (min k (passes_in_time e s)))"
    by (elim exE conjE)
  note z = fake_wait_pulses_sleeps [OF r h]
  from r w t z show "\<exists>s'. fake_wait_pulses k st e s = Some (k \<le> passes_in_time e s, s') \<and>
         async_writes (effects s') =
           async_writes (effects s) @ countdown st k 1 (min k (passes_in_time e s)) \<and>
         status s' = last_or (status s) (countdown st k 1 (min k (passes_in_time e s))) \<and>
         sleeps (effects s') =
           sleeps (effects s) @ replicate (nat (min k (passes_in_time e s))) 1"
    by (intro exI [of _ s'] conjI)
next
  assume h: "k \<le> pulses_in_time e s \<or> timed_out e s"
  from wait_pulses_spec [OF h, of st] obtain s' where
    r: "wait_pulses k st e s = Some (k \<le> pulses_in_time e s, s')"
    and w: "async_writes (effects s') =
       async_writes (effects s) @ countdown st k 1 (min k (pulses_in_time e s))"
    and t: "status s' = last_or (status s) (countdown st k 1 (min k (pulses_in_time e s)))"
    by (elim exE conjE)
  note z = wait_pulses_sleeps [OF r]
  from r w t z show "\<exists>s'. wait_pulses k st e s = Some (k \<le> pulses_in_time e s, s') \<and>
         async_writes (effects s') =
           async_writes (effects s) @ countdown st k 1 (min k (pulses_in_time e s)) \<and>
         status s' = last_or (status s) (countdown st k 1 (min k (pulses_in_time e s))) \<and>
         (\<exists>n. sleeps (effects s') = sleeps (effects s) @ replicate n 0.050)"
    by (intro exI [of _ s'] conjI)
qed

theorem simulated_wait_counts_passes_witness:
  "(2 \<le> passes_in_time two_pulses example_closed \<or> timed_out two_pulses example_closed) \<and>
   (\<exists>s'. fake_wait_pulses 2 (Some ''opening'') two_pulses example_closed = Some (True, s') \<and>
      async_writes (effects s') = [''opening 1'', ''opening 0''] \<and>
      status s' = Some ''opening 0'' \<and> sleeps (effects s') = [1, 1]) \<and>
   (2 \<le> pulses_in_time two_pulses example_closed \<or> timed_out two_pulses example_closed) \<and>
   (\<exists>s'. wait_pulses 2 (Some ''opening'') two_pulses example_closed = Some (True, s') \<and>
      async_writes (effects s') = [''opening 1'', ''opening 0''] \<and>
      status s' = Some ''opening 0'' \<and>
      (\<exists>n. sleeps (effects s') = replicate n 0.050))"
proof -
  have a: "2 \<le> passes_in_time two_pulses example_closed \<or> timed_out two_pulses example_closed"
    by (simp add: two_pulses_passes)
  have b: "2 \<le> pulses_in_time two_pulses example_closed \<or> timed_out two_pulses example_closed"
    by (simp add: two_pulses_passes)
  have e: "effects example_closed = []" "status example_closed = Some ''closed''"
    by (simp_all add: example_closed_def)
  note c = simulated_wait_counts_passes
    [of 2 two_pulses example_closed "Some ''opening''"]
  from c a have 1: "\<exists>s'. fake_wait_pulses 2 (Some ''opening'') two_pulses example_closed = Some (True, s') \<and>
      async_writes (effects s') = [''opening 1'', ''opening 0''] \<and>
      status s' = Some ''opening 0'' \<and> sleeps (effects s') = [1, 1]"
    by (simp add: two_pulses_passes countdown_values e last_or_def numeral_2_eq_2)
  from c b have 2: "\<exists>s'. wait_pulses 2 (Some ''opening'') two_pulses example_closed = Some (True, s') \<and>
      async_writes (effects s') = [''opening 1'', ''opening 0''] \<and>
      status s' = Some ''opening 0'' \<and>
      (\<exists>n. sleeps (effects s') = replicate n 0.050)"
    by (simp add: two_pulses_passes countdown_values e last_or_def)
  from a 1 b 2 show ?thesis by (intro conjI)
qed

section \<open>Every run ends stopped and journaled\<close>

text \<open>
  C4: an \<^verbatim>\<open>open\<close> or \<^verbatim>\<open>close\<close> that gets past its precondition with the motor
  free, on observations that determine its wait, returns, and the last things it does are to
  set both output channels high, settle for 250 ms and write the terminal status on the
  foreground path: \<open>open\<close> (\<open>closed\<close>) when the target was reached in time, \<open>failed opening\<close>
  (\<open>failed closing\<close>) when it was not. That status is then both the status in memory and
  the content of the journal file, whatever the status was before.
\<close>

theorem drive_always_stopped_and_journaled:
  assumes "\<not> motor_busy s"
  shows "((resuming \<or> status s = Some ''closed'') \<and>
          (open_target p s \<le> pulses_counted e s \<or> timed_out e s) \<longrightarrow>
          (\<exists>s'. open_op p resuming e s = Some (Inr PyNone, s') \<and>
             status s' =
               Some (if open_target p s \<le> pulses_counted e s then ''open'' else ''failed opening'') \<and>
             journal_file s' =
               Some (if open_target p s \<le> pulses_counted e s then ''open'' else ''failed opening'') \<and>
             \<not> motor_busy s' \<and>
             last_effects 4 s' =
               [Output CH1 1, Output CH2 1, Sleep 0.25,
                JournalSync (if open_target p s \<le> pulses_counted e s
                             then ''open'' else ''failed opening'')])) \<and>
         ((resuming \<or> status s = Some ''open'') \<and>
          (close_target p s \<le> pulses_counted e s \<or> timed_out e s) \<longrightarrow>
          (\<exists>s'. close_op p resuming e s = Some (Inr PyNone, s') \<and>
             status s' =
               Some (if close_target p s \<le> pulses_counted e s then ''closed'' else ''failed closing'') \<and>
             journal_file s' =
               Some (if close_target p s \<le> pulses_counted e s then ''closed'' else ''failed closing'') \<and>
             \<not> motor_busy s' \<and>
             last_effects 4 s' =
               [Output CH1 1, Output CH2 1, Sleep 0.25,
                JournalSync (if close_target p s \<le> pulses_counted e s
                             then ''closed'' else ''failed closing'')]))"
proof (intro conjI impI)
  assume h: "(resuming \<or> status s = Some ''closed'') \<and>
             (open_target p s \<le> pulses_counted e s \<or> timed_out e s)"
  define T where "T = (if open_target p s \<le> pulses_counted e s then ''open'' else ''failed opening'')"
  from h have pre: "resuming \<or> status s = Some ''closed''"
    and dec: "open_target p s \<le> pulses_counted e s \<or> timed_out e s" by simp_all
  from open_op_runs [OF assms pre open_target_def refl dec] obtain s3 where
    g: "gpio_initialized s3"
    and r: "open_op p resuming e s = Some (Inr PyNone, update_status T False (stop_and_housekeeping s3))"
    unfolding T_def by (elim exE conjE)
  note f = finished_state [OF g, of T]
  show "\<exists>s'. open_op p resuming e s = Some (Inr PyNone, s') \<and>
             status s' =
               Some (if open_target p s \<le> pulses_counted e s then ''open'' else ''failed opening'') \<and>
             journal_file s' =
               Some (if open_target p s \<le> pulses_counted e s then ''open'' else ''failed opening'') \<and>
             \<not> motor_busy s' \<and>
             last_effects 4 s' =
               [Output CH1 1, Output CH2 1, Sleep 0.25,
                JournalSync (if open_target p s \<le> pulses_counted e s
                             then ''open'' else ''failed opening'')]"
    unfolding T_def [symmetric] using r f
    by (intro exI [of _ "update_status T False (stop_and_housekeeping s3)"]) simp
next
  assume h: "(resuming \<or> status s = Some ''open'') \<and>
             (close_target p s \<le> pulses_counted e s \<or> timed_out e s)"
  define T where "T = (if close_target p s \<le> pulses_counted e s then ''closed'' else ''failed closing'')"
  from h have pre: "resuming \<or> status s = Some ''open''"
    and dec: "close_target p s \<le> pulses_counted e s \<or> timed_out e s" by simp_all
  from close_op_runs [OF assms pre close_target_def refl dec] obtain s3 where
    g: "gpio_initialized s3"
    and r: "close_op p resuming e s = Some (Inr PyNone, update_status T False (stop_and_housekeeping s3))"
    unfolding T_def by (elim exE conjE)
  note f = finished_state [OF g, of T]
  show "\<exists>s'. close_op p resuming e s = Some (Inr PyNone, s') \<and>
             status s' =
               Some (if close_target p s \<le> pulses_counted e s then ''closed'' else ''failed closing'') \<and>
             journal_file s' =
               Some (if close_target p s \<le> pulses_counted e s then ''closed'' else ''failed closing'') \<and>
             \<not> motor_busy s' \<and>
             last_effects 4 s' =
               [Output CH1 1, Output CH2 1, Sleep 0.25,
                JournalSync (if close_target p s \<le> pulses_counted e s
                             then ''closed'' else ''failed closing'')]"
    unfolding T_def [symmetric] using r f
    by (intro exI [of _ "update_status T False (stop_and_housekeeping s3)"]) simp
qed

theorem drive_always_stopped_and_journaled_witness:
  "\<not> motor_busy example_closed \<and> status example_closed = Some ''closed'' \<and>
   (\<exists>s'. open_op (Some 2) False two_pulses example_closed = Some (Inr PyNone, s') \<and>
      status s' = Some ''open'' \<and> journal_file s' = Some ''open'' \<and> \<not> motor_busy s' \<and>
      last_effects 4 s' = [Output CH1 1, Output CH2 1, Sleep 0.25, JournalSync ''open'']) \<and>
   \<not> motor_busy example_open \<and> status example_open = Some ''open'' \<and>
   timed_out late_pulse example_open \<and>
   (\<exists>s'. close_op (Some 2) False late_pulse example_open = Some (Inr PyNone, s') \<and>
      status s' = Some ''failed closing'' \<and> journal_file s' = Some ''failed closing'' \<and>
      \<not> motor_busy s' \<and>
      last_effects 4 s' =
        [Output CH1 1, Output CH2 1, Sleep 0.25, JournalSync ''failed closing''])"
proof -
  have a: "\<not> motor_busy example_closed" "status example_closed = Some ''closed''"
    by (simp_all add: example_closed_def)
  have b: "\<not> motor_busy example_open" "status example_open = Some ''open''"
    by (simp_all add: example_open_def)
  from drive_always_stopped_and_journaled [OF a(1), of False "Some 2" two_pulses]
  have 1: "\<exists>s'. open_op (Some 2) False two_pulses example_closed = Some (Inr PyNone, s') \<and>
      status s' = Some ''open'' \<and> journal_file s' = Some ''open'' \<and> \<not> motor_busy s' \<and>
      last_effects 4 s' = [Output CH1 1, Output CH2 1, Sleep 0.25, JournalSync ''open'']"
    by (simp add: a open_target_def example_counts)
  from drive_always_stopped_and_journaled [OF b(1), of False "Some 2" late_pulse]
  have 2: "\<exists>s'. close_op (Some 2) False late_pulse example_open = Some (Inr PyNone, s') \<and>
      status s' = Some ''failed closing'' \<and> journal_file s' = Some ''failed closing'' \<and>
      \<not> motor_busy s' \<and>
      last_effects 4 s' =
        [Output CH1 1, Output CH2 1, Sleep 0.25, JournalSync ''failed closing'']"
    by (simp add: b close_target_def example_counts)
  from a b 1 2 example_counts(3) show ?thesis by (intro conjI)
qed

section \<open>Resuming an interrupted run\<close>

text \<open>
  C5: on a status made of \<open>opening\<close> or \<open>closing\<close>, a blank and the decimal form of an
  integer \<open>n\<close>, \<^verbatim>\<open>resume\<close> is \<^verbatim>\<open>open\<close> (respectively \<^verbatim>\<open>close\<close>) called with
  \<open>n\<close> pulses and \<open>resuming\<close> set, its own result replaced by \<open>True\<close>. With the motor
  free and the wait determined, the run counts down from \<open>n\<close>: its status updates are
  \<open>n - 1\<close>, \<open>n - 2\<close>, ... whatever the configured pulse counts are. On an in-progress
  status whose second token \<^verbatim>\<open>int\<close> rejects, \<^verbatim>\<open>resume\<close> returns \<open>False\<close> and leaves
  the object untouched: nothing is written and no output is driven.
\<close>

theorem resume_uses_persisted_count:
  assumes "token = ''opening'' \<or> token = ''closing''"
  shows "(status s = Some (token @ '' '' @ str_int n) \<longrightarrow>
           resume e s =
             returning_True (if token = ''opening'' then open_op (Some n) True e s
                             else close_op (Some n) True e s)) \<and>
         (status s = Some (token @ '' '' @ str_int n) \<and> \<not> motor_busy s \<and>
          (n \<le> pulses_counted e s \<or> timed_out e s) \<longrightarrow>
           (\<exists>s'. resume e s = Some (Inr True, s') \<and>
              async_writes (effects s') =
                async_writes (effects s) @
                  countdown (Some token) n 1 (min n (pulses_counted e s)))) \<and>
         (status s = Some line \<and> py_split line = token # arg # others \<and> py_int arg = None \<longrightarrow>
           resume e s = Some (Inr False, s))"
proof (intro conjI impI)
  assume st: "status s = Some (token @ '' '' @ str_int n)"
  show "resume e s =
          returning_True (if token = ''opening'' then open_op (Some n) True e s
                          else close_op (Some n) True e s)"
    unfolding resume_in_progress [OF st assms] using assms
    by (auto simp add: resume_dispatch_def)
next
  assume h: "status s = Some (token @ '' '' @ str_int n) \<and> \<not> motor_busy s \<and>
             (n \<le> pulses_counted e s \<or> timed_out e s)"
  then have st: "status s = Some (token @ '' '' @ str_int n)" and busy: "\<not> motor_busy s"
    and dec: "n \<le> pulses_counted e s \<or> timed_out e s" by simp_all
  from resume_runs [OF st assms busy dec] obtain s3 T where
    w: "async_writes (effects s3) =
          async_writes (effects s) @ countdown (Some token) n 1 (min n (pulses_counted e s))"
    and r: "resume e s = Some (Inr True, update_status T False (stop_and_housekeeping s3))"
    by (elim exE conjE)
  have "async_writes (effects (update_status T False (stop_and_housekeeping s3)))
          = async_writes (effects s3)"
    by (simp add: forward_writes)
  with w r show "\<exists>s'. resume e s = Some (Inr True, s') \<and>
      async_writes (effects s') =
        async_writes (effects s) @ countdown (Some token) n 1 (min n (pulses_counted e s))"
    by (intro exI [of _ "update_status T False (stop_and_housekeeping s3)"]) simp
next
  assume "status s = Some line \<and> py_split line = token # arg # others \<and> py_int arg = None"
  then show "resume e s = Some (Inr False, s)"
    using resume_malformed [of s line token arg others e] assms by simp
qed

theorem resume_uses_persisted_count_witness:
  "open_pulses interrupted_opening = 11 \<and>
   (\<exists>s'. resume three_pulses interrupted_opening = Some (Inr True, s') \<and>
      async_writes (effects s') = [''opening 2'', ''opening 1'', ''opening 0'']) \<and>
   resume three_pulses interrupted_opening =
     returning_True (open_op (Some 3) True three_pulses interrupted_opening) \<and>
   resume three_pulses (interrupted_opening\<lparr>status := Some ''opening x3''\<rparr>) =
     Some (Inr False, interrupted_opening\<lparr>status := Some ''opening x3''\<rparr>)"
proof -
  note t = resume_uses_persisted_count [of "''opening''"]
  have 0: "open_pulses interrupted_opening = 11" by (simp add: interrupted_opening_def)
  note u = t [of interrupted_opening 3 three_pulses "[]" "[]" "[]"]
  from u [THEN conjunct1]
  have 2: "resume three_pulses interrupted_opening =
     returning_True (open_op (Some 3) True three_pulses interrupted_opening)"
    by (simp add: interrupted_facts)
  from u [THEN conjunct2, THEN conjunct1]
  have 1: "\<exists>s'. resume three_pulses interrupted_opening = Some (Inr True, s') \<and>
      async_writes (effects s') = [''opening 2'', ''opening 1'', ''opening 0'']"
    by (simp add: interrupted_facts countdown_three)
  from t [of "interrupted_opening\<lparr>status := Some ''opening x3''\<rparr>" 0 three_pulses
      "''opening x3''" "''x3''" "[]"]
  have 3: "resume three_pulses (interrupted_opening\<lparr>status := Some ''opening x3''\<rparr>) =
     Some (Inr False, interrupted_opening\<lparr>status := Some ''opening x3''\<rparr>)"
    by (simp add: malformed_example)
  from 0 1 2 3 show ?thesis by (intro conjI)
qed

section \<open>What resume returns\<close>

text \<open>
  C10: on a status \<open>opening n\<close> or \<open>closing n\<close> with an integer \<open>n\<close>, the motor free and
  the wait determined, \<^verbatim>\<open>resume\<close> returns \<open>True\<close> whether the run it drives succeeds or
  not: the status it leaves is \<open>open\<close> (\<open>closed\<close>) when the \<open>n\<close> pulses came in time and
  \<open>failed opening\<close> (\<open>failed closing\<close>) when they did not, and the value returned is
  \<open>True\<close> in both cases.
\<close>

theorem resume_true_whatever_the_outcome:
  assumes "status s = Some (token @ '' '' @ str_int n)"
    and "token = ''opening'' \<or> token = ''closing''"
    and "\<not> motor_busy s"
    and "n \<le> pulses_counted e s \<or> timed_out e s"
  shows "\<exists>s'. resume e s = Some (Inr True, s') \<and>
           status s' =
             Some (if token = ''opening''
                   then (if n \<le> pulses_counted e s then ''open'' else ''failed opening'')
                   else (if n \<le> pulses_counted e s then ''closed'' else ''failed closing''))"
proof -
  define T where "T = (if token = ''opening''
                   then (if n \<le> pulses_counted e s then ''open'' else ''failed opening'')
                   else (if n \<le> pulses_counted e s then ''closed'' else ''failed closing''))"
  from resume_runs [OF assms] obtain s3 where
    r: "resume e s = Some (Inr True, update_status T False (stop_and_housekeeping s3))"
    unfolding T_def by (elim exE conjE)
  have "status (update_status T False (stop_and_housekeeping s3)) = Some T" by simp
  with r show ?thesis
    unfolding T_def [symmetric]
    by (intro exI [of _ "update_status T False (stop_and_housekeeping s3)"] conjI)
qed

theorem resume_true_whatever_the_outcome_witness:
  "status interrupted_opening = Some ''opening 3'' \<and> \<not> motor_busy interrupted_opening \<and>
   timed_out late_pulse interrupted_opening \<and>
   \<not> 3 \<le> pulses_counted late_pulse interrupted_opening \<and>
   (\<exists>s'. resume late_pulse interrupted_opening = Some (Inr True, s') \<and>
      status s' = Some ''failed opening'') \<and>
   status interrupted_closing = Some ''closing 3'' \<and> \<not> motor_busy interrupted_closing \<and>
   (\<exists>s'. resume three_pulses interrupted_closing = Some (Inr True, s') \<and>
      status s' = Some ''closed'')"
proof -
  have a: "status interrupted_opening = Some ''opening 3''"
    "status interrupted_closing = Some ''closing 3''"
    by (simp_all add: interrupted_opening_def interrupted_closing_def)
  have b: "\<not> 3 \<le> pulses_counted late_pulse interrupted_opening"
    by (simp add: interrupted_facts)
  from resume_true_whatever_the_outcome
    [OF interrupted_facts(1) _ interrupted_facts(2), of late_pulse]
  have 1: "\<exists>s'. resume late_pulse interrupted_opening = Some (Inr True, s') \<and>
      status s' = Some ''failed opening''"
    by (simp add: interrupted_facts)
  from resume_true_whatever_the_outcome
    [OF interrupted_facts(7) _ interrupted_facts(8), of three_pulses]
  have 2: "\<exists>s'. resume three_pulses interrupted_closing = Some (Inr True, s') \<and>
      status s' = Some ''closed''"
    by (simp add: interrupted_facts)
  from a b 1 2 interrupted_facts(2,6,8) show ?thesis by (intro conjI)
qed

section \<open>The status written when a run starts\<close>

text \<open>
  C7 claims that a non-resuming \<^verbatim>\<open>open\<close> writes \<open>opening\<close> followed by the pulse count
  before its wait. It writes the bare token: \<^verbatim>\<open>self.update_status("opening")\<close>. On a
  controller at \<open>closed\<close>, the status and the journal on entry to the wait are \<open>opening\<close>,
  and an \<^verbatim>\<open>open(3)\<close> that sees one pulse hands the executor \<open>opening\<close> and then
  \<open>opening 2\<close>; \<open>opening 3\<close> is never written.
\<close>

theorem open_writes_bare_token:
  "status in_flight_open = Some ''opening'' \<and>
   journal_file in_flight_open = Some ''opening'' \<and>
   map_option (\<lambda>r. async_writes (effects (snd r)))
     (open_op (Some 3) False late_pulse example_closed) = Some [''opening'', ''opening 2'']"
  by (simp add: in_flight_open_def example_closed_def late_pulse_def open_op_def forward_def
      stop_and_housekeeping_def gpio_setup_def emit_def update_status_def write_journal_def
      wait_pulses_def cleanup_completed_journal_futures_def pulse_seen_def
      str_int_def str_nat.simps digit_char_values CH1_def CH2_def Let_def)

text \<open>
  C7, as the code has it: a non-resuming \<^verbatim>\<open>open\<close> (\<^verbatim>\<open>close\<close>) that passes its
  precondition with the motor free enters its wait with the status and the journal at the
  bare token \<open>opening\<close> (\<open>closing\<close>), handed to the executor as its one write so far; a
  count follows the token only in the updates the wait makes, one for each pulse.
\<close>

theorem in_progress_token_written_bare:
  assumes "\<not> motor_busy s"
  shows "(status s = Some ''closed'' \<longrightarrow>
           status (update_status ''opening'' True (snd (forward s))) = Some ''opening'' \<and>
           journal_file (update_status ''opening'' True (snd (forward s))) = Some ''opening'' \<and>
           async_writes (effects (update_status ''opening'' True (snd (forward s)))) =
             async_writes (effects s) @ [''opening''] \<and>
           open_op p False e s =
             (case (if faking_it s
                    then fake_wait_pulses (open_target p s) (Some ''opening'') e
                           (update_status ''opening'' True (snd (forward s)))
                    else wait_pulses (open_target p s) (Some ''opening'') e
                           (update_status ''opening'' True (snd (forward s)))) of
                None \<Rightarrow> None
              | Some (result, s3) \<Rightarrow>
                  Some (Inr PyNone,
                        update_status (if result then ''open'' else ''failed opening'') False
                          (stop_and_housekeeping s3)))) \<and>
         (status s = Some ''open'' \<longrightarrow>
           status (update_status ''closing'' True (snd (reverse s))) = Some ''closing'' \<and>
           journal_file (update_status ''closing'' True (snd (reverse s))) = Some ''closing'' \<and>
           async_writes (effects (update_status ''closing'' True (snd (reverse s)))) =
             async_writes (effects s) @ [''closing''] \<and>
           close_op p False e s =
             (case (if faking_it s
                    then fake_wait_pulses (close_target p s) (Some ''closing'') e
                           (update_status ''closing'' True (snd (reverse s)))
                    else wait_pulses (close_target p s) (Some ''closing'') e
                           (update_status ''closing'' True (snd (reverse s)))) of
                None \<Rightarrow> None
              | Some (result, s3) \<Rightarrow>
                  Some (Inr PyNone,
                        update_status (if result then ''closed'' else ''failed closing'') False
                          (stop_and_housekeeping s3))))"
proof (intro conjI impI)
  note fw = forward_granted [OF assms]
  have fwd: "forward s = (True, snd (forward s))"
    using fw(1) by (cases "forward s") simp
  assume c: "status s = Some ''closed''"
  show "open_op p False e s =
             (case (if faking_it s
                    then fake_wait_pulses (open_target p s) (Some ''opening'') e
                           (update_status ''opening'' True (snd (forward s)))
                    else wait_pulses (open_target p s) (Some ''opening'') e
                           (update_status ''opening'' True (snd (forward s)))) of
                None \<Rightarrow> None
              | Some (result, s3) \<Rightarrow>
                  Some (Inr PyNone,
                        update_status (if result then ''open'' else ''failed opening'') False
                          (stop_and_housekeeping s3)))"
    unfolding open_op_def open_target_def Let_def
    by (subst fwd) (simp add: c fw split: option.splits)
next
  note rv = reverse_granted [OF assms]
  have rvd: "reverse s = (True, snd (reverse s))"
    using rv(1) by (cases "reverse s") simp
  assume c: "status s = Some ''open''"
  show "close_op p False e s =
             (case (if faking_it s
                    then fake_wait_pulses (close_target p s) (Some ''closing'') e
                           (update_status ''closing'' True (snd (reverse s)))
                    else wait_pulses (close_target p s) (Some ''closing'') e
                           (update_status ''closing'' True (snd (reverse s)))) of
                None \<Rightarrow> None
              | Some (result, s3) \<Rightarrow>
                  Some (Inr PyNone,
                        update_status (if result then ''closed'' else ''failed closing'') False
                          (stop_and_housekeeping s3)))"
    unfolding close_op_def close_target_def Let_def
    by (subst rvd) (simp add: c rv split: option.splits)
qed (simp_all add: forward_writes)

theorem in_progress_token_written_bare_witness:
  "\<not> motor_busy example_closed \<and> status example_closed = Some ''closed'' \<and>
   status (update_status ''opening'' True (snd (forward example_closed))) = Some ''opening'' \<and>
   journal_file (update_status ''opening'' True (snd (forward example_closed))) =
     Some ''opening'' \<and>
   async_writes (effects (update_status ''opening'' True (snd (forward example_closed)))) =
     [''opening''] \<and>
   \<not> motor_busy example_open \<and> status example_open = Some ''open'' \<and>
   status (update_status ''closing'' True (snd (reverse example_open))) = Some ''closing'' \<and>
   journal_file (update_status ''closing'' True (snd (reverse example_open))) =
     Some ''closing'' \<and>
   async_writes (effects (update_status ''closing'' True (snd (reverse example_open)))) =
     [''closing'']"
proof -
  have a: "\<not> motor_busy example_closed" "status example_closed = Some ''closed''"
    "effects example_closed = []"
    by (simp_all add: example_closed_def)
  have b: "\<not> motor_busy example_open" "status example_open = Some ''open''"
    "effects example_open = []"
    by (simp_all add: example_open_def)
  note t = in_progress_token_written_bare [OF a(1), of None two_pulses, THEN conjunct1]
  note u = in_progress_token_written_bare [OF b(1), of None two_pulses, THEN conjunct2]
  from t a(2,3) have 1:
    "status (update_status ''opening'' True (snd (forward example_closed))) = Some ''opening'' \<and>
     journal_file (update_status ''opening'' True (snd (forward example_closed))) =
       Some ''opening'' \<and>
     async_writes (effects (update_status ''opening'' True (snd (forward example_closed)))) =
       [''opening'']"
    by simp
  from u b(2,3) have 2:
    "status (update_status ''closing'' True (snd (reverse example_open))) = Some ''closing'' \<and>
     journal_file (update_status ''closing'' True (snd (reverse example_open))) =
       Some ''closing'' \<and>
     async_writes (effects (update_status ''closing'' True (snd (reverse example_open)))) =
       [''closing'']"
    by simp
  from a(1,2) b(1,2) 1 2 show ?thesis by simp
qed

section \<open>Loading the journal\<close>

text \<open>
  C8 claims that \<^verbatim>\<open>load_journal\<close> fails exactly on a missing or empty file and otherwise
  returns the file's content. It strips the content first: a file holding \<open>open\<close> and a
  newline yields \<open>open\<close>, which is not its content, and a file holding only a newline is
  not empty and yet yields no status.
\<close>

theorem load_strips_whitespace:
  "load_journal (Some (''open'' @ [CHR 0x0A])) = Some ''open'' \<and>
   load_journal (Some (''open'' @ [CHR 0x0A])) \<noteq> Some (''open'' @ [CHR 0x0A]) \<and>
   [CHR 0x0A] \<noteq> [] \<and> load_journal (Some [CHR 0x0A]) = None"
  by (simp add: load_journal_def py_strip_def py_isspace_def)

text \<open>
  C8, as the code has it. When the file is missing or holds nothing but whitespace,
  \<^verbatim>\<open>load_journal\<close> yields no status; the constructor, which loads once, then ends with
  the status unset, having at most configured the pins, even when asked to resume, and on that
  object a non-resuming \<^verbatim>\<open>open\<close> or \<^verbatim>\<open>close\<close> is rejected and changes nothing. When
  the file holds something else, \<^verbatim>\<open>load_journal\<close> yields its content without the
  whitespace at either end.
\<close>

theorem load_journal_contract:
  "(file = None \<or> (\<exists>content. file = Some content \<and> list_all py_isspace content) \<longrightarrow>
      load_journal file = None \<and>
      (\<exists>s'. init file fake_it op cl mt r e = Some (Inr (), s') \<and> status s' = None \<and>
         \<not> motor_busy s' \<and>
         effects s' = (if fake_it then [] else [Setup CH1, Setup CH2, Setup PULSE]) \<and>
         open_op p False e' s' = Some (Inr (PyBool False), s') \<and>
         close_op p False e' s' = Some (Inr (PyBool False), s'))) \<and>
   (file = Some content \<and> \<not> list_all py_isspace content \<longrightarrow>
      load_journal file = Some (py_strip content) \<and>
      (\<exists>before after. content = before @ py_strip content @ after \<and>
         list_all py_isspace before \<and> list_all py_isspace after) \<and>
      \<not> py_isspace (hd (py_strip content)) \<and> \<not> py_isspace (last (py_strip content)))"
proof (intro conjI impI)
  assume h: "file = None \<or> (\<exists>content. file = Some content \<and> list_all py_isspace content)"
  then show l: "load_journal file = None"
    by (auto simp add: load_journal_def py_strip_empty_iff)
  let ?s = "\<lparr>journal_file = file, gpio_initialized = \<not> fake_it, journal_futures = [],
             motor_busy = False, faking_it = fake_it, open_pulses = op,
             close_pulses = cl, maxtime = 30, status = None,
             effects = (if fake_it then [] else [Setup CH1, Setup CH2, Setup PULSE])\<rparr>"
  have "init file fake_it op cl mt r e = Some (Inr (), ?s)" by (rule init_without_status [OF l])
  moreover have "open_op p False e' ?s = Some (Inr (PyBool False), ?s)"
    by (simp add: open_op_def)
  moreover have "close_op p False e' ?s = Some (Inr (PyBool False), ?s)"
    by (simp add: close_op_def)
  ultimately show "\<exists>s'. init file fake_it op cl mt r e = Some (Inr (), s') \<and> status s' = None \<and>
         \<not> motor_busy s' \<and>
         effects s' = (if fake_it then [] else [Setup CH1, Setup CH2, Setup PULSE]) \<and>
         open_op p False e' s' = Some (Inr (PyBool False), s') \<and>
         close_op p False e' s' = Some (Inr (PyBool False), s')"
    by (intro exI [of _ ?s]) simp
next
  assume h: "file = Some content \<and> \<not> list_all py_isspace content"
  then have ne: "py_strip content \<noteq> []" by (simp add: py_strip_empty_iff)
  from h ne show "load_journal file = Some (py_strip content)"
    by (simp add: load_journal_def)
  show "\<exists>before after. content = before @ py_strip content @ after \<and>
         list_all py_isspace before \<and> list_all py_isspace after"
    by (rule py_strip_parts)
  from py_strip_ends [OF ne] show "\<not> py_isspace (hd (py_strip content))"
    and "\<not> py_isspace (last (py_strip content))" by simp_all
qed

theorem load_journal_contract_witness:
  "load_journal None = None \<and>
   (\<exists>s'. init None False 11 11 30 True two_pulses = Some (Inr (), s') \<and> status s' = None \<and>
      \<not> motor_busy s' \<and> effects s' = [Setup CH1, Setup CH2, Setup PULSE] \<and>
      open_op None False two_pulses s' = Some (Inr (PyBool False), s') \<and>
      close_op None False two_pulses s' = Some (Inr (PyBool False), s')) \<and>
   \<not> list_all py_isspace ('' closed'' @ [CHR 0x0A]) \<and>
   load_journal (Some ('' closed'' @ [CHR 0x0A])) = Some ''closed''"
proof -
  note t = load_journal_contract [of None]
  from t [of False 11 11 30 True two_pulses None two_pulses "[]", THEN conjunct1]
  have 1: "load_journal None = None \<and>
   (\<exists>s'. init None False 11 11 30 True two_pulses = Some (Inr (), s') \<and> status s' = None \<and>
      \<not> motor_busy s' \<and> effects s' = [Setup CH1, Setup CH2, Setup PULSE] \<and>
      open_op None False two_pulses s' = Some (Inr (PyBool False), s') \<and>
      close_op None False two_pulses s' = Some (Inr (PyBool False), s'))"
    by simp
  have n: "\<not> list_all py_isspace ('' closed'' @ [CHR 0x0A])"
    by (simp add: py_isspace_def)
  have s: "py_strip ('' closed'' @ [CHR 0x0A]) = ''closed''"
    by (simp add: py_strip_def py_isspace_def)
  from load_journal_contract [of "Some ('' closed'' @ [CHR 0x0A])" False 11 11 30 True
      two_pulses None two_pulses "'' closed'' @ [CHR 0x0A]", THEN conjunct2] n
  have 2: "load_journal (Some ('' closed'' @ [CHR 0x0A])) = Some ''closed''"
    unfolding s by simp
  from 1 n 2 show ?thesis by (intro conjI) simp_all
qed

end
